theory Spec2Isabelle
  imports Main
begin

section \<open>Calendar dates\<close>

text \<open>
  A JavaScript \<open>Date\<close> is an instant; every function the pickers call on it
  (\<open>getFullYear\<close>, \<open>setMonth\<close>, date-fns \<open>addMonths\<close>, \<open>startOfDay\<close>, ...) reads or
  writes its local calendar fields. The model keeps the local fields and derives the
  instant (\<open>getTime\<close>) from them, for a local time zone with a fixed offset (no
  daylight-saving jumps): \<open>getTime\<close> counts milliseconds of local time since
  1970-01-01 00:00 local. Months are 0-based as in JavaScript, days of the month 1-based.
\<close>

record Date =
  fullYear :: int
  monthIndex :: nat
  dayOfMonth :: nat
  hours :: nat
  minutes :: nat
  seconds :: nat
  millis :: nat

definition isLeapYear :: "int \<Rightarrow> bool" where
  "isLeapYear y = (y mod 4 = 0 \<and> (y mod 100 \<noteq> 0 \<or> y mod 400 = 0))"

definition daysInMonth :: "int \<Rightarrow> nat \<Rightarrow> nat" where
  "daysInMonth y m =
     (if m = 1 then (if isLeapYear y then 29 else 28)
      else if m = 3 \<or> m = 5 \<or> m = 8 \<or> m = 10 then 30 else 31)"

definition valid_date :: "Date \<Rightarrow> bool" where
  "valid_date d =
     (monthIndex d < 12 \<and> 1 \<le> dayOfMonth d \<and>
      dayOfMonth d \<le> daysInMonth (fullYear d) (monthIndex d) \<and>
      hours d < 24 \<and> minutes d < 60 \<and> seconds d < 60 \<and> millis d < 1000)"

text \<open>Days from 1970-01-01 to the first day of a year, of a month, and to a date.\<close>

definition daysBeforeYear :: "int \<Rightarrow> int" where
  "daysBeforeYear y =
     365 * (y - 1) + (y - 1) div 4 - (y - 1) div 100 + (y - 1) div 400 - 719162"

fun daysBeforeMonth :: "int \<Rightarrow> nat \<Rightarrow> nat" where
  "daysBeforeMonth y 0 = 0"
| "daysBeforeMonth y (Suc m) = daysBeforeMonth y m + daysInMonth y m"

definition dayNumber :: "Date \<Rightarrow> int" where
  "dayNumber d =
     daysBeforeYear (fullYear d) + int (daysBeforeMonth (fullYear d) (monthIndex d))
       + int (dayOfMonth d) - 1"

definition getTime :: "Date \<Rightarrow> int" where
  "getTime d =
     (((dayNumber d * 24 + int (hours d)) * 60 + int (minutes d)) * 60
        + int (seconds d)) * 1000 + int (millis d)"

text \<open>\<open>getDay\<close>: 0 is Sunday; 1970-01-01 was a Thursday.\<close>

definition getDay :: "Date \<Rightarrow> nat" where
  "getDay d = nat ((dayNumber d + 4) mod 7)"

definition getYear :: "Date \<Rightarrow> int" where
  "getYear d = fullYear d"

definition isBefore :: "Date \<Rightarrow> Date \<Rightarrow> bool" where
  "isBefore a b = (getTime a < getTime b)"

definition isAfter :: "Date \<Rightarrow> Date \<Rightarrow> bool" where
  "isAfter a b = (getTime a > getTime b)"

definition startOfDay :: "Date \<Rightarrow> Date" where
  "startOfDay d = d\<lparr>hours := 0, minutes := 0, seconds := 0, millis := 0\<rparr>"

definition endOfDay :: "Date \<Rightarrow> Date" where
  "endOfDay d = d\<lparr>hours := 23, minutes := 59, seconds := 59, millis := 999\<rparr>"

definition startOfMonth :: "Date \<Rightarrow> Date" where
  "startOfMonth d = startOfDay (d\<lparr>dayOfMonth := 1\<rparr>)"

definition endOfMonth :: "Date \<Rightarrow> Date" where
  "endOfMonth d =
     endOfDay (d\<lparr>dayOfMonth := daysInMonth (fullYear d) (monthIndex d)\<rparr>)"

text \<open>
  Months counted from year 0, so that month arithmetic carries into the year:
  \<open>new Date(y, m, 1)\<close> accepts any integer \<open>m\<close> (the source passes \<open>getMonth() - 1\<close>
  and \<open>getMonth() + 1\<close>). The constructor reads a year from 0 to 99 as 1900 plus that
  year; \<open>setFullYear\<close> does not.
\<close>

definition monthCount :: "Date \<Rightarrow> int" where
  "monthCount d = fullYear d * 12 + int (monthIndex d)"

definition legacyYear :: "int \<Rightarrow> bool" where
  "legacyYear y = (0 \<le> y \<and> y \<le> 99)"

definition newDate :: "int \<Rightarrow> int \<Rightarrow> nat \<Rightarrow> Date" where
  "newDate y m day =
     (let yr = (if legacyYear y then 1900 + y else y) in
      \<lparr>fullYear = yr + m div 12, monthIndex = nat (m mod 12), dayOfMonth = day,
       hours = 0, minutes = 0, seconds = 0, millis = 0\<rparr>)"

text \<open>
  A day of the month past the end of the month rolls into the next month, as the
  \<open>Date\<close> setters do. A date that was valid has a day of at most 31, and every month has
  at least 28 days, so one roll is enough.
\<close>

definition rollDay :: "Date \<Rightarrow> Date" where
  "rollDay d =
     (let n = daysInMonth (fullYear d) (monthIndex d) in
      if dayOfMonth d \<le> n then d
      else (if monthIndex d = 11
            then d\<lparr>fullYear := fullYear d + 1, monthIndex := 0, dayOfMonth := dayOfMonth d - n\<rparr>
            else d\<lparr>monthIndex := monthIndex d + 1, dayOfMonth := dayOfMonth d - n\<rparr>))"

definition setMonth :: "Date \<Rightarrow> nat \<Rightarrow> Date" where
  "setMonth d m =
     rollDay (d\<lparr>fullYear := fullYear d + int (m div 12), monthIndex := m mod 12\<rparr>)"

definition setFullYear :: "Date \<Rightarrow> int \<Rightarrow> Date" where
  "setFullYear d y = rollDay (d\<lparr>fullYear := y\<rparr>)"

text \<open>
  date-fns \<open>addMonths\<close>: the month moves by \<open>n\<close>, the day is capped at the last day of
  the target month, the time of day is kept. \<open>subMonths\<close>, \<open>addYears\<close> and \<open>subYears\<close>
  are defined by it, as in the library.
\<close>

definition addMonths :: "Date \<Rightarrow> int \<Rightarrow> Date" where
  "addMonths d n =
     (let c = monthCount d + n; y = c div 12; m = nat (c mod 12) in
      d\<lparr>fullYear := y, monthIndex := m, dayOfMonth := min (dayOfMonth d) (daysInMonth y m)\<rparr>)"

definition subMonths :: "Date \<Rightarrow> int \<Rightarrow> Date" where
  "subMonths d n = addMonths d (- n)"

definition addYears :: "Date \<Rightarrow> int \<Rightarrow> Date" where
  "addYears d n = addMonths d (n * 12)"

definition subYears :: "Date \<Rightarrow> int \<Rightarrow> Date" where
  "subYears d n = addYears d (- n)"

section \<open>Bounds\<close>

record bounds =
  minDate :: "Date option"
  maxDate :: "Date option"

definition normalizeDate :: "Date option \<Rightarrow> bool \<Rightarrow> Date option" where
  "normalizeDate date isEnd =
     (case date of None \<Rightarrow> None
      | Some d \<Rightarrow> Some (if isEnd then endOfDay d else startOfDay d))"

definition normalizedMinDate :: "bounds \<Rightarrow> Date option" where
  "normalizedMinDate b = normalizeDate (minDate b) False"

definition normalizedMaxDate :: "bounds \<Rightarrow> Date option" where
  "normalizedMaxDate b = normalizeDate (maxDate b) True"

definition beforeMin :: "bounds \<Rightarrow> Date \<Rightarrow> bool" where
  "beforeMin b date =
     (case normalizedMinDate b of None \<Rightarrow> False | Some mn \<Rightarrow> isBefore date mn)"

definition afterMax :: "bounds \<Rightarrow> Date \<Rightarrow> bool" where
  "afterMax b date =
     (case normalizedMaxDate b of None \<Rightarrow> False | Some mx \<Rightarrow> isAfter date mx)"

definition isDateInRange :: "bounds \<Rightarrow> Date \<Rightarrow> bool" where
  "isDateInRange b date =
     (if beforeMin b date then False
      else if afterMax b date then False
      else True)"

definition isYearSelectable :: "bounds \<Rightarrow> int \<Rightarrow> bool" where
  "isYearSelectable b year =
     (if (case normalizedMinDate b of None \<Rightarrow> False | Some mn \<Rightarrow> year < getYear mn)
      then False
      else if (case normalizedMaxDate b of None \<Rightarrow> False | Some mx \<Rightarrow> year > getYear mx)
      then False
      else True)"

text \<open>
  The clamp every month and year selection applies to the date it has built:
  snap to the normalized minimum when before it, else to the normalized maximum when
  after it.
\<close>

definition clampToBounds :: "bounds \<Rightarrow> Date \<Rightarrow> Date" where
  "clampToBounds b d =
     (case normalizedMinDate b of
        Some mn \<Rightarrow>
          if isBefore d mn then mn
          else (case normalizedMaxDate b of
                  Some mx \<Rightarrow> if isAfter d mx then mx else d
                | None \<Rightarrow> d)
      | None \<Rightarrow>
          (case normalizedMaxDate b of
             Some mx \<Rightarrow> if isAfter d mx then mx else d
           | None \<Rightarrow> d))"

record YearRange =
  yr_start :: int
  yr_end :: int

definition getYearRange :: "Date \<Rightarrow> YearRange" where
  "getYearRange date =
     (let year = getYear date; start = (year div 12) * 12 in
      \<lparr>yr_start = start, yr_end = start + 11\<rparr>)"

section \<open>The range calendar (DateRangeOverlay)\<close>

datatype CalendarView = Days | Months | Years
datatype SelectionPhase = PhaseStart | PhaseEnd
datatype Side = LeftSide | RightSide
datatype Direction = Prev | Next

text \<open>The pair handed to \<open>onChange\<close>: \<open>{ startDate, endDate }\<close>, \<open>None\<close> for \<open>null\<close>.\<close>

type_synonym DatePair = "Date option \<times> Date option"

text \<open>
  The component's state hooks, one field each. \<open>activeSpecialView\<close> is \<open>None\<close> for
  \<open>null\<close>. \<open>notified\<close> records the calls of \<open>onChange\<close>, oldest first.
  \<open>leftDateSet\<close> records that the handler of the current event called
  \<open>setLeftCurrentDate\<close>: every such call stores a fresh \<open>Date\<close> object, so the effect
  that depends on \<open>leftCurrentDate\<close> runs after the event.
\<close>

record range_state =
  leftCurrentDate :: Date
  rightCurrentDate :: Date
  selectedStartDate :: "Date option"
  selectedEndDate :: "Date option"
  hoverDate :: "Date option"
  selectionPhase :: SelectionPhase
  leftView :: CalendarView
  rightView :: CalendarView
  leftYearRange :: YearRange
  rightYearRange :: YearRange
  activeSpecialView :: "Side option"
  notified :: "DatePair list"
  leftDateSet :: bool

definition setLeftCurrentDate :: "Date \<Rightarrow> range_state \<Rightarrow> range_state" where
  "setLeftCurrentDate d s = s\<lparr>leftCurrentDate := d, leftDateSet := True\<rparr>"

definition onChange :: "DatePair \<Rightarrow> range_state \<Rightarrow> range_state" where
  "onChange p s = s\<lparr>notified := notified s @ [p]\<rparr>"

definition handleDateSelect_range :: "bounds \<Rightarrow> Date \<Rightarrow> range_state \<Rightarrow> range_state" where
  "handleDateSelect_range b date s =
     (if \<not> isDateInRange b date then s
      else if selectionPhase s = PhaseStart then
        onChange (Some date, None)
          (s\<lparr>selectedStartDate := Some date, selectedEndDate := None,
             selectionPhase := PhaseEnd\<rparr>)
      else
        (case selectedStartDate s of
           Some start \<Rightarrow>
             if isBefore date start then
               (onChange (Some date, selectedEndDate s)
                 (s\<lparr>selectedStartDate := Some date\<rparr>))\<lparr>selectionPhase := PhaseStart\<rparr>
             else
               (onChange (Some start, Some date)
                 (s\<lparr>selectedEndDate := Some date\<rparr>))\<lparr>selectionPhase := PhaseStart\<rparr>
         | None \<Rightarrow>
             onChange (Some date, None)
               (s\<lparr>selectedStartDate := Some date, selectionPhase := PhaseEnd\<rparr>)))"

definition handleDateHover :: "Date \<Rightarrow> range_state \<Rightarrow> range_state" where
  "handleDateHover date s =
     (if selectionPhase s = PhaseEnd \<and> selectedStartDate s \<noteq> None
      then s\<lparr>hoverDate := Some date\<rparr> else s)"

text \<open>The six flags of \<open>canNavigate\<close>.\<close>

definition canNavigate_prevMonth :: "bounds \<Rightarrow> range_state \<Rightarrow> bool" where
  "canNavigate_prevMonth b s =
     (case normalizedMinDate b of None \<Rightarrow> True
      | Some mn \<Rightarrow> \<not> isBefore (endOfMonth (subMonths (leftCurrentDate s) 1)) mn)"

definition canNavigate_nextMonth :: "bounds \<Rightarrow> range_state \<Rightarrow> bool" where
  "canNavigate_nextMonth b s =
     (case normalizedMaxDate b of None \<Rightarrow> True
      | Some mx \<Rightarrow> \<not> isAfter (startOfMonth (addMonths (rightCurrentDate s) 1)) mx)"

definition canNavigate_prevYear :: "bounds \<Rightarrow> range_state \<Rightarrow> bool" where
  "canNavigate_prevYear b s =
     (case normalizedMinDate b of None \<Rightarrow> True
      | Some mn \<Rightarrow> \<not> isBefore (subYears (leftCurrentDate s) 1) mn)"

definition canNavigate_nextYear :: "bounds \<Rightarrow> range_state \<Rightarrow> bool" where
  "canNavigate_nextYear b s =
     (case normalizedMaxDate b of None \<Rightarrow> True
      | Some mx \<Rightarrow> \<not> isAfter (addYears (rightCurrentDate s) 1) mx)"

definition canNavigate_prevYearRange :: "bounds \<Rightarrow> range_state \<Rightarrow> bool" where
  "canNavigate_prevYearRange b s =
     (case normalizedMinDate b of None \<Rightarrow> True
      | Some mn \<Rightarrow> getYear mn \<le> yr_start (leftYearRange s) - 12)"

definition canNavigate_nextYearRange :: "bounds \<Rightarrow> range_state \<Rightarrow> bool" where
  "canNavigate_nextYearRange b s =
     (case normalizedMaxDate b of None \<Rightarrow> True
      | Some mx \<Rightarrow> getYear mx \<ge> yr_end (leftYearRange s) + 12)"

definition shiftYearRange :: "int \<Rightarrow> YearRange \<Rightarrow> YearRange" where
  "shiftYearRange k r = \<lparr>yr_start = yr_start r + k, yr_end = yr_end r + k\<rparr>"

definition handleNavigation :: "bounds \<Rightarrow> Direction \<Rightarrow> range_state \<Rightarrow> range_state" where
  "handleNavigation b direction s =
     (case activeSpecialView s of
        Some side \<Rightarrow>
          (let view = (if side = LeftSide then leftView s else rightView s) in
           if view = Months then
             (if direction = Prev \<and> canNavigate_prevYear b s then
                (if side = LeftSide
                 then setLeftCurrentDate (subYears (leftCurrentDate s) 1) s
                 else s\<lparr>rightCurrentDate := subYears (rightCurrentDate s) 1\<rparr>)
              else if direction = Next \<and> canNavigate_nextYear b s then
                (if side = LeftSide
                 then setLeftCurrentDate (addYears (leftCurrentDate s) 1) s
                 else s\<lparr>rightCurrentDate := addYears (rightCurrentDate s) 1\<rparr>)
              else s)
           else if view = Years then
             (if direction = Prev \<and> canNavigate_prevYearRange b s then
                (if side = LeftSide
                 then s\<lparr>leftYearRange := shiftYearRange (- 12) (leftYearRange s)\<rparr>
                 else s\<lparr>rightYearRange := shiftYearRange (- 12) (rightYearRange s)\<rparr>)
              else if direction = Next \<and> canNavigate_nextYearRange b s then
                (if side = LeftSide
                 then s\<lparr>leftYearRange := shiftYearRange 12 (leftYearRange s)\<rparr>
                 else s\<lparr>rightYearRange := shiftYearRange 12 (rightYearRange s)\<rparr>)
              else s)
           else s)
      | None \<Rightarrow>
          (if direction = Prev \<and> canNavigate_prevMonth b s then
             setLeftCurrentDate (subMonths (leftCurrentDate s) 1) s
           else if direction = Next \<and> canNavigate_nextMonth b s then
             setLeftCurrentDate (addMonths (leftCurrentDate s) 1) s
           else s))"

definition toggleView :: "Side \<Rightarrow> range_state \<Rightarrow> range_state" where
  "toggleView side s =
     (if side = LeftSide then
        (if leftView s = Days then
           s\<lparr>leftView := Months, activeSpecialView := Some LeftSide\<rparr>
         else if leftView s = Months then
           s\<lparr>leftYearRange := getYearRange (leftCurrentDate s), leftView := Years,
             activeSpecialView := Some LeftSide\<rparr>
         else s\<lparr>leftView := Days, activeSpecialView := None\<rparr>)
      else
        (if rightView s = Days then
           s\<lparr>rightView := Months, activeSpecialView := Some RightSide\<rparr>
         else if rightView s = Months then
           s\<lparr>rightYearRange := getYearRange (rightCurrentDate s), rightView := Years,
             activeSpecialView := Some RightSide\<rparr>
         else s\<lparr>rightView := Days, activeSpecialView := None\<rparr>))"

definition handleMonthSelect_range ::
    "bounds \<Rightarrow> Side \<Rightarrow> nat \<Rightarrow> range_state \<Rightarrow> range_state" where
  "handleMonthSelect_range b side monthIdx s =
     (if side = LeftSide then
        (let newD = clampToBounds b (setMonth (leftCurrentDate s) monthIdx) in
         (setLeftCurrentDate newD s)\<lparr>leftView := Days, activeSpecialView := None\<rparr>)
      else
        (let newD = clampToBounds b (setMonth (rightCurrentDate s) monthIdx);
             s1 = (if isBefore
                        (newDate (fullYear newD) (int (monthIndex newD)) 1)
                        (newDate (fullYear (leftCurrentDate s))
                                 (int (monthIndex (leftCurrentDate s)) + 1) 1)
                   then setLeftCurrentDate
                          (newDate (fullYear newD) (int (monthIndex newD) - 1) 1) s
                   else s)
         in s1\<lparr>rightCurrentDate := newD, rightView := Days, activeSpecialView := None\<rparr>))"

definition handleYearSelect_range ::
    "bounds \<Rightarrow> Side \<Rightarrow> int \<Rightarrow> range_state \<Rightarrow> range_state" where
  "handleYearSelect_range b side year s =
     (if \<not> isYearSelectable b year then s
      else if side = LeftSide then
        (let newD = clampToBounds b (setFullYear (leftCurrentDate s) year) in
         (setLeftCurrentDate newD s)\<lparr>leftView := Days, activeSpecialView := None\<rparr>)
      else if (case selectedStartDate s of None \<Rightarrow> False
               | Some start \<Rightarrow> year < getYear start) then s
      else
        (let newD = clampToBounds b (setFullYear (rightCurrentDate s) year);
             newD' = (if isBefore newD (addMonths (leftCurrentDate s) 1)
                      then addMonths (leftCurrentDate s) 1 else newD)
         in s\<lparr>rightCurrentDate := newD', rightView := Days, activeSpecialView := None\<rparr>))"

text \<open>
  The effects. Externally supplied \<open>startDate\<close>/\<open>endDate\<close> are \<open>undefined\<close>, \<open>null\<close> or
  a date; the type \<open>Date\<close> holds real instants only, so \<open>isValid\<close> is true of every
  date of the model.
\<close>

datatype date_prop = Undefined | Null | Given Date

definition syncStartDate :: "date_prop \<Rightarrow> range_state \<Rightarrow> range_state" where
  "syncStartDate startDate s =
     (case startDate of
        Given d \<Rightarrow> s\<lparr>selectedStartDate := Some d, selectionPhase := PhaseEnd\<rparr>
      | Null \<Rightarrow> s\<lparr>selectedStartDate := None, selectionPhase := PhaseStart\<rparr>
      | Undefined \<Rightarrow> s)"

definition syncEndDate :: "date_prop \<Rightarrow> range_state \<Rightarrow> range_state" where
  "syncEndDate endDate s =
     (case endDate of
        Given d \<Rightarrow> s\<lparr>selectedEndDate := Some d\<rparr>
      | Null \<Rightarrow> s\<lparr>selectedEndDate := None\<rparr>
      | Undefined \<Rightarrow> s)"

text \<open>
  ``Keep right calendar in sync with left'': the effect with dependency
  \<open>[leftCurrentDate]\<close>, run after an event whose handler set \<open>leftCurrentDate\<close>.
\<close>

definition syncRight :: "range_state \<Rightarrow> range_state" where
  "syncRight s =
     (if leftDateSet s
      then s\<lparr>rightCurrentDate := addMonths (leftCurrentDate s) 1, leftDateSet := False\<rparr>
      else s)"

datatype range_event =
    Navigate Direction
  | ToggleView Side
  | Pick Date
  | Hover Date
  | Unhover
  | MonthSelect Side nat
  | YearSelect Side int
  | StartDateProp date_prop
  | EndDateProp date_prop

fun range_handler :: "bounds \<Rightarrow> range_event \<Rightarrow> range_state \<Rightarrow> range_state" where
  "range_handler b (Navigate dir) s = handleNavigation b dir s"
| "range_handler b (ToggleView side) s = toggleView side s"
| "range_handler b (Pick d) s = handleDateSelect_range b d s"
| "range_handler b (Hover d) s = handleDateHover d s"
| "range_handler b Unhover s = s\<lparr>hoverDate := None\<rparr>"
| "range_handler b (MonthSelect side m) s = handleMonthSelect_range b side m s"
| "range_handler b (YearSelect side y) s = handleYearSelect_range b side y s"
| "range_handler b (StartDateProp p) s = syncStartDate p s"
| "range_handler b (EndDateProp p) s = syncEndDate p s"

definition range_step :: "bounds \<Rightarrow> range_event \<Rightarrow> range_state \<Rightarrow> range_state" where
  "range_step b ev s = syncRight (range_handler b ev s)"

fun range_run :: "bounds \<Rightarrow> range_event list \<Rightarrow> range_state \<Rightarrow> range_state" where
  "range_run b [] s = s"
| "range_run b (ev # evs) s = range_run b evs (range_step b ev s)"

text \<open>
  The state at mount. \<open>defaultStartDate\<close> defaults to \<open>new Date()\<close>, passed as \<open>now\<close>.
\<close>

definition initLeftDate :: "bounds \<Rightarrow> date_prop \<Rightarrow> Date option \<Rightarrow> Date \<Rightarrow> Date" where
  "initLeftDate b startDate defaultStartDate now =
     (case startDate of
        Given d \<Rightarrow> d
      | _ \<Rightarrow> clampToBounds b (case defaultStartDate of Some d \<Rightarrow> d | None \<Rightarrow> now))"

definition propOrNull :: "date_prop \<Rightarrow> Date option" where
  "propOrNull p = (case p of Given d \<Rightarrow> Some d | _ \<Rightarrow> None)"

definition range_init ::
    "bounds \<Rightarrow> date_prop \<Rightarrow> date_prop \<Rightarrow> Date option \<Rightarrow> Date \<Rightarrow> range_state" where
  "range_init b startDate endDate defaultStartDate now =
     (let l = initLeftDate b startDate defaultStartDate now in
      \<lparr>leftCurrentDate = l,
       rightCurrentDate = addMonths l 1,
       selectedStartDate = propOrNull startDate,
       selectedEndDate = propOrNull endDate,
       hoverDate = None,
       selectionPhase = (if propOrNull startDate \<noteq> None then PhaseEnd else PhaseStart),
       leftView = Days,
       rightView = Days,
       leftYearRange = getYearRange l,
       rightYearRange = getYearRange (addMonths l 1),
       activeSpecialView = None,
       notified = [],
       leftDateSet = False\<rparr>)"

section \<open>Days, weeks and the time of day\<close>

text \<open>
  \<open>setDate(getDate() + n)\<close> and \<open>setDate(getDate() - n)\<close>, as date-fns \<open>addDays\<close>,
  \<open>subDays\<close>, \<open>startOfWeek\<close> and \<open>endOfWeek\<close> call them, are modelled by stepping one
  day at a time.
\<close>

definition nextDay :: "Date \<Rightarrow> Date" where
  "nextDay d = rollDay (d\<lparr>dayOfMonth := dayOfMonth d + 1\<rparr>)"

definition prevDay :: "Date \<Rightarrow> Date" where
  "prevDay d =
     (if 1 < dayOfMonth d then d\<lparr>dayOfMonth := dayOfMonth d - 1\<rparr>
      else if monthIndex d = 0
      then d\<lparr>fullYear := fullYear d - 1, monthIndex := 11, dayOfMonth := 31\<rparr>
      else d\<lparr>monthIndex := monthIndex d - 1,
             dayOfMonth := daysInMonth (fullYear d) (monthIndex d - 1)\<rparr>)"

definition addDays :: "Date \<Rightarrow> nat \<Rightarrow> Date" where
  "addDays d n = (nextDay ^^ n) d"

definition subDays :: "Date \<Rightarrow> nat \<Rightarrow> Date" where
  "subDays d n = (prevDay ^^ n) d"

text \<open>\<open>startOfWeek\<close> and \<open>endOfWeek\<close> with \<open>{ weekStartsOn: 0 }\<close>.\<close>

definition startOfWeek :: "Date \<Rightarrow> Date" where
  "startOfWeek d = startOfDay (subDays d (getDay d))"

definition endOfWeek :: "Date \<Rightarrow> Date" where
  "endOfWeek d = endOfDay (addDays d (6 - getDay d))"

definition startOfYear :: "Date \<Rightarrow> Date" where
  "startOfYear d = startOfDay (d\<lparr>monthIndex := 0, dayOfMonth := 1\<rparr>)"

definition endOfYear :: "Date \<Rightarrow> Date" where
  "endOfYear d = endOfDay (d\<lparr>monthIndex := 11, dayOfMonth := 31\<rparr>)"

text \<open>
  \<open>setHours\<close> and \<open>setMinutes\<close> with one argument: the other fields are kept; an hour
  of 24 or more, or a minute of 60 or more, carries into the following days.
\<close>

definition setHours :: "Date \<Rightarrow> nat \<Rightarrow> Date" where
  "setHours d h = (addDays d (h div 24))\<lparr>hours := h mod 24\<rparr>"

definition setMinutes :: "Date \<Rightarrow> nat \<Rightarrow> Date" where
  "setMinutes d m =
     (let t = hours d * 60 + m in
      (addDays d (t div 1440))\<lparr>hours := (t div 60) mod 24, minutes := t mod 60\<rparr>)"

section \<open>Strings of the time list\<close>

definition digitChar :: "nat \<Rightarrow> char" where
  "digitChar n = ''0123456789'' ! (n mod 10)"

fun toString :: "nat \<Rightarrow> string" where
  "toString n = (if n < 10 then [digitChar n] else toString (n div 10) @ [digitChar (n mod 10)])"

declare toString.simps [simp del]

definition padStart :: "nat \<Rightarrow> char \<Rightarrow> string \<Rightarrow> string" where
  "padStart n c s = replicate (n - length s) c @ s"

text \<open>\<open>String.prototype.split\<close> on a one-character separator.\<close>

fun split :: "char \<Rightarrow> string \<Rightarrow> string list" where
  "split c [] = [[]]"
| "split c (x # xs) =
     (if x = c then [] # split c xs
      else (case split c xs of [] \<Rightarrow> [[x]] | p # ps \<Rightarrow> (x # p) # ps))"

text \<open>
  \<open>Number\<close> on a string: \<open>None\<close> is \<open>NaN\<close>. The model reads strings of decimal digits
  (the empty string is 0), which are the strings the time list hands out; on every other
  string it answers \<open>NaN\<close>, which leaves out the signed, fractional, exponent and
  radix-prefixed literals and surrounding white space that JavaScript also reads.
\<close>

definition digitValue :: "char \<Rightarrow> nat option" where
  "digitValue c =
     (let code = (of_char c :: nat) in
      if 48 \<le> code \<and> code \<le> 57 then Some (code - 48) else None)"

fun numberFrom :: "nat \<Rightarrow> string \<Rightarrow> nat option" where
  "numberFrom acc [] = Some acc"
| "numberFrom acc (c # cs) =
     (case digitValue c of None \<Rightarrow> None | Some v \<Rightarrow> numberFrom (10 * acc + v) cs)"

definition Number :: "string \<Rightarrow> nat option" where
  "Number s = numberFrom 0 s"

text \<open>
  \<open>const [hours, minutes] = timeString.split(':').map(Number)\<close>: a missing second part
  is \<open>undefined\<close>, and arithmetic on it gives \<open>NaN\<close>.
\<close>

definition parseTime :: "string \<Rightarrow> nat option \<times> nat option" where
  "parseTime timeString =
     (case map Number (split (CHR '':'') timeString) of
        [] \<Rightarrow> (None, None)
      | [h] \<Rightarrow> (h, None)
      | h # m # _ \<Rightarrow> (h, m))"

text \<open>date-fns \<open>format(date, 'HH:mm')\<close>.\<close>

definition formatHHmm :: "Date \<Rightarrow> string" where
  "formatHHmm d =
     padStart 2 (CHR ''0'') (toString (hours d)) @ '':''
       @ padStart 2 (CHR ''0'') (toString (minutes d))"

section \<open>The single-date calendar (DateOverlay)\<close>

text \<open>
  What \<open>onChange\<close> is called with: a \<open>Date\<close> object, which is an Invalid Date when its
  hour or minute was set from \<open>NaN\<close>.
\<close>

datatype js_date = InvalidDate | Instant Date

text \<open>
  The props the handlers read: the bounds and \<open>showTimeSelect\<close>. The props \<open>minTime\<close>,
  \<open>maxTime\<close> and \<open>timeInterval\<close>, which only \<open>generateTimeOptions\<close> reads, are its
  arguments below.
\<close>

record picker_props =
  limits :: bounds
  showTimeSelect :: bool

record picker_state =
  currentDate :: Date
  selectedDate :: "Date option"
  view :: CalendarView
  yearRange :: YearRange
  selectedTime :: "string option"
  emitted :: "js_date list"

definition emit :: "js_date \<Rightarrow> picker_state \<Rightarrow> picker_state" where
  "emit v s = s\<lparr>emitted := emitted s @ [v]\<rparr>"

text \<open>The effect on \<open>[value]\<close>: ``Update internal state when external value changes''.\<close>

definition syncValue :: "date_prop \<Rightarrow> picker_state \<Rightarrow> picker_state" where
  "syncValue v s =
     (case v of
        Given d \<Rightarrow>
          s\<lparr>selectedDate := Some d, currentDate := d, selectedTime := Some (formatHHmm d)\<rparr>
      | Null \<Rightarrow> s\<lparr>selectedDate := None, selectedTime := None\<rparr>
      | Undefined \<Rightarrow> s)"

definition handleDateSelect :: "picker_props \<Rightarrow> Date \<Rightarrow> picker_state \<Rightarrow> picker_state" where
  "handleDateSelect p date s =
     (if isDateInRange (limits p) date then
        (let s' = s\<lparr>selectedDate := Some date, currentDate := date\<rparr> in
         if \<not> showTimeSelect p then emit (Instant date) s' else s')
      else s)"

definition combineDateAndTime :: "Date \<Rightarrow> string \<Rightarrow> js_date" where
  "combineDateAndTime date timeString =
     (case parseTime timeString of
        (Some h, Some m) \<Rightarrow> Instant (setMinutes (setHours date h) m)
      | _ \<Rightarrow> InvalidDate)"

definition handleTimeSelect :: "string \<Rightarrow> picker_state \<Rightarrow> picker_state" where
  "handleTimeSelect timeString s =
     (let s' = s\<lparr>selectedTime := Some timeString\<rparr> in
      case selectedDate s of
        Some d \<Rightarrow> emit (combineDateAndTime d timeString) s'
      | None \<Rightarrow> s')"

text \<open>\<open>handleSelectToday\<close>; \<open>today\<close> is the value of \<open>new Date()\<close> at the call.\<close>

definition handleSelectToday :: "picker_props \<Rightarrow> Date \<Rightarrow> picker_state \<Rightarrow> picker_state" where
  "handleSelectToday p today s =
     (if isDateInRange (limits p) today then
        (let s' = s\<lparr>selectedDate := Some today, currentDate := today, view := Days\<rparr> in
         if \<not> showTimeSelect p then emit (Instant today) s' else s')
      else s)"

subsection \<open>The time list\<close>

record time_option =
  opt_value :: string
  displayText :: string

definition timeOption :: "nat \<Rightarrow> time_option" where
  "timeOption i =
     (let hrs = i div 60;
          mins = i mod 60;
          period = (if hrs \<ge> 12 then ''pm'' else ''am'');
          hours12 = (if hrs mod 12 = 0 then 12 else hrs mod 12);
          formatted = toString hours12 @ '':'' @ padStart 2 (CHR ''0'') (toString mins)
                        @ '' '' @ period
      in \<lparr>opt_value = padStart 2 (CHR ''0'') (toString hrs) @ '':''
                        @ padStart 2 (CHR ''0'') (toString mins),
          displayText = formatted\<rparr>)"

text \<open>
  The \<open>for\<close> loop of \<open>generateTimeOptions\<close>. With an interval of 0 and \<open>i \<le> endMinutes\<close>
  it never ends: the result \<open>None\<close> stands for that.
\<close>

partial_function (option) timeLoop ::
    "nat \<Rightarrow> nat \<Rightarrow> nat \<Rightarrow> time_option list \<Rightarrow> time_option list option" where
  "timeLoop i endMinutes interval options =
     (if i \<le> endMinutes
      then timeLoop (i + interval) endMinutes interval (options @ [timeOption i])
      else Some options)"

declare timeLoop.simps [code]

text \<open>
  \<open>generateTimeOptions\<close>, with the props \<open>minTime\<close>, \<open>maxTime\<close> and \<open>timeInterval\<close> (a whole
  number of minutes) as arguments. A comparison with \<open>NaN\<close> is false, so the loop body
  never runs when a bound does not parse.
\<close>

definition generateTimeOptions :: "string \<Rightarrow> string \<Rightarrow> nat \<Rightarrow> time_option list option" where
  "generateTimeOptions minT maxT interval =
     (case (parseTime minT, parseTime maxT) of
        ((Some minHours, Some minMinutes), (Some maxHours, Some maxMinutes)) \<Rightarrow>
          timeLoop (minHours * 60 + minMinutes) (maxHours * 60 + maxMinutes) interval []
      | _ \<Rightarrow> Some [])"

section \<open>The range presets (DateRangePresets)\<close>

datatype preset =
    Today | Yesterday | ThisWeek | LastWeek | Last7Days
  | ThisMonth | Last3Months | ThisYear | LastYear

text \<open>\<open>getRange\<close> of each preset; \<open>now\<close> is the value of \<open>new Date()\<close> at the click.\<close>

fun getRange :: "preset \<Rightarrow> Date \<Rightarrow> DatePair" where
  "getRange Today now = (Some (startOfDay now), Some (endOfDay now))"
| "getRange Yesterday now =
     (Some (startOfDay (subDays now 1)), Some (endOfDay (subDays now 1)))"
| "getRange ThisWeek now = (Some (startOfWeek now), Some (endOfWeek now))"
| "getRange LastWeek now =
     (Some (subDays (startOfWeek now) 7), Some (subDays (endOfWeek now) 7))"
| "getRange Last7Days now = (Some (startOfDay (subDays now 6)), Some (endOfDay now))"
| "getRange ThisMonth now = (Some (startOfMonth now), Some (endOfMonth now))"
| "getRange Last3Months now = (Some (startOfDay (subMonths now 3)), Some (endOfDay now))"
| "getRange ThisYear now = (Some (startOfYear now), Some (endOfYear now))"
| "getRange LastYear now =
     (Some (startOfYear (subYears now 1)), Some (endOfYear (subYears now 1)))"

section \<open>The range input shell (DateRangePickerInput)\<close>

text \<open>
  \<open>startDate\<close> and \<open>endDate\<close> are the props, the pair the consumer owns; \<open>localStartDate\<close>
  and \<open>localEndDate\<close> are the buffer shown in the overlay; \<open>changes\<close> records the calls
  of the consumer's \<open>onChange\<close>, oldest first, and \<open>cleared\<close> counts the calls of
  \<open>clearInput\<close>. The text of the input field, a rendering of the pair, is left out.
\<close>

record shell_state =
  startDate :: date_prop
  endDate :: date_prop
  isOpen :: bool
  localStartDate :: "Date option"
  localEndDate :: "Date option"
  changes :: "DatePair list"
  cleared :: nat

definition handleDateChange :: "DatePair \<Rightarrow> shell_state \<Rightarrow> shell_state" where
  "handleDateChange dates s = s\<lparr>localStartDate := fst dates, localEndDate := snd dates\<rparr>"

definition handlePresetClick :: "preset \<Rightarrow> Date \<Rightarrow> shell_state \<Rightarrow> shell_state" where
  "handlePresetClick preset now s = handleDateChange (getRange preset now) s"

definition handleApply :: "shell_state \<Rightarrow> shell_state" where
  "handleApply s =
     s\<lparr>changes := changes s @ [(localStartDate s, localEndDate s)], isOpen := False\<rparr>"

definition handleCancel :: "shell_state \<Rightarrow> shell_state" where
  "handleCancel s =
     (let s' = (if localStartDate s \<noteq> None \<and> localEndDate s = None
                then s\<lparr>localStartDate := propOrNull (startDate s),
                       localEndDate := propOrNull (endDate s)\<rparr>
                else s)
      in s'\<lparr>isOpen := False\<rparr>)"

definition handleClear :: "shell_state \<Rightarrow> shell_state" where
  "handleClear s =
     s\<lparr>localStartDate := None, localEndDate := None,
       changes := changes s @ [(None, None)], cleared := cleared s + 1\<rparr>"

text \<open>
  \<open>togglePicker\<close> on an enabled input; on opening, the effect on \<open>[isOpen]\<close> seeds the
  buffer from the props.
\<close>

definition togglePicker :: "shell_state \<Rightarrow> shell_state" where
  "togglePicker s =
     (if isOpen s then s\<lparr>isOpen := False\<rparr>
      else s\<lparr>isOpen := True, localStartDate := propOrNull (startDate s),
             localEndDate := propOrNull (endDate s)\<rparr>)"

text \<open>
  The consumer of a controlled picker stores the pair it was last notified of and hands
  it back as the props.
\<close>

definition consumerStores :: "shell_state \<Rightarrow> shell_state" where
  "consumerStores s =
     (if changes s = [] then s
      else (let p = last (changes s) in
            s\<lparr>startDate := (case fst p of None \<Rightarrow> Null | Some d \<Rightarrow> Given d),
              endDate := (case snd p of None \<Rightarrow> Null | Some d \<Rightarrow> Given d)\<rparr>))"

section \<open>Notions used in the statements\<close>

text \<open>Midnight of a calendar day, and a full date and time, for the examples.\<close>

definition ymd :: "int \<Rightarrow> nat \<Rightarrow> nat \<Rightarrow> Date" where
  "ymd y m d =
     \<lparr>fullYear = y, monthIndex = m, dayOfMonth = d,
      hours = 0, minutes = 0, seconds = 0, millis = 0\<rparr>"

definition ymdhms :: "int \<Rightarrow> nat \<Rightarrow> nat \<Rightarrow> nat \<Rightarrow> nat \<Rightarrow> nat \<Rightarrow> nat \<Rightarrow> Date" where
  "ymdhms y m d h mi sec ms =
     \<lparr>fullYear = y, monthIndex = m, dayOfMonth = d,
      hours = h, minutes = mi, seconds = sec, millis = ms\<rparr>"

definition noBounds :: bounds where
  "noBounds = \<lparr>minDate = None, maxDate = None\<rparr>"

definition valid_bounds :: "bounds \<Rightarrow> bool" where
  "valid_bounds b =
     ((case minDate b of None \<Rightarrow> True | Some d \<Rightarrow> valid_date d) \<and>
      (case maxDate b of None \<Rightarrow> True | Some d \<Rightarrow> valid_date d))"

text \<open>The day number of the first day of the month with a given month count.\<close>

definition monthStart :: "int \<Rightarrow> int" where
  "monthStart c =
     daysBeforeYear (c div 12) + int (daysBeforeMonth (c div 12) (nat (c mod 12)))"

definition timeOfDay :: "Date \<Rightarrow> int" where
  "timeOfDay d =
     ((int (hours d) * 60 + int (minutes d)) * 60 + int (seconds d)) * 1000
       + int (millis d)"

text \<open>The right calendar shows the month after the left one.\<close>

definition rightSynced :: "range_state \<Rightarrow> bool" where
  "rightSynced s = (rightCurrentDate s = addMonths (leftCurrentDate s) 1)"

text \<open>
  The events whose handler sets \<open>rightCurrentDate\<close> without \<open>leftCurrentDate\<close>:
  a month or year selection on the right side, and the year arrows while the right side
  shows its months.
\<close>

fun movesRightAlone :: "range_state \<Rightarrow> range_event \<Rightarrow> bool" where
  "movesRightAlone s (MonthSelect side m) = (side = RightSide)"
| "movesRightAlone s (YearSelect side y) = (side = RightSide)"
| "movesRightAlone s (Navigate dir) =
     (activeSpecialView s = Some RightSide \<and> rightView s = Months)"
| "movesRightAlone s ev = False"

fun noneMovesRightAlone :: "bounds \<Rightarrow> range_event list \<Rightarrow> range_state \<Rightarrow> bool" where
  "noneMovesRightAlone b [] s = True"
| "noneMovesRightAlone b (ev # evs) s =
     (\<not> movesRightAlone s ev \<and> noneMovesRightAlone b evs (range_step b ev s))"

text \<open>
  The date a month or year selection on the right side asks for (the right date with
  the month or year set, clamped into the bounds), and the guard of a year selection on
  the right side.
\<close>

definition requestedMonth :: "bounds \<Rightarrow> range_state \<Rightarrow> nat \<Rightarrow> Date" where
  "requestedMonth b s m = clampToBounds b (setMonth (rightCurrentDate s) m)"

definition requestedYear :: "bounds \<Rightarrow> range_state \<Rightarrow> int \<Rightarrow> Date" where
  "requestedYear b s y = clampToBounds b (setFullYear (rightCurrentDate s) y)"

definition yearAccepted :: "bounds \<Rightarrow> range_state \<Rightarrow> int \<Rightarrow> bool" where
  "yearAccepted b s y =
     (isYearSelectable b y \<and>
      (case selectedStartDate s of None \<Rightarrow> True | Some start \<Rightarrow> getYear start \<le> y))"

text \<open>
  The right calendar shows a month strictly after the left one. The one event left out
  of the statement about it: the year arrows while the right side shows its months.
  Where a month selection on the right side calls \<open>new Date(y, m, 1)\<close>, the years it
  passes are taken outside 0 to 99.
\<close>

definition rightAfterLeft :: "range_state \<Rightarrow> bool" where
  "rightAfterLeft s = (monthCount (leftCurrentDate s) < monthCount (rightCurrentDate s))"

fun rightYearArrows :: "range_state \<Rightarrow> range_event \<Rightarrow> bool" where
  "rightYearArrows s (Navigate dir) =
     (activeSpecialView s = Some RightSide \<and> rightView s = Months)"
| "rightYearArrows s ev = False"

fun modernYears :: "bounds \<Rightarrow> range_state \<Rightarrow> range_event \<Rightarrow> bool" where
  "modernYears b s (MonthSelect side m) =
     (if side = RightSide
      then \<not> legacyYear (fullYear (leftCurrentDate s)) \<and>
           \<not> legacyYear (fullYear (requestedMonth b s m))
      else True)"
| "modernYears b s ev = True"

text \<open>
  The time list as the specification words it: the times of day \<open>minTime\<close>,
  \<open>minTime + interval\<close>, ... up to \<open>maxTime\<close> inclusive, in minutes since midnight; a
  zero-padded 24-hour key \<open>HH:mm\<close>; a 12-hour label \<open>h:mm am/pm\<close> in which the hours 0
  and 12 both read 12.
\<close>

definition spec_times :: "nat \<Rightarrow> nat \<Rightarrow> nat \<Rightarrow> nat list" where
  "spec_times lo hi interval =
     (if lo > hi then [] else map (\<lambda>k. lo + k * interval) [0 ..< (hi - lo) div interval + 1])"

definition spec_key :: "nat \<Rightarrow> nat \<Rightarrow> string" where
  "spec_key h m =
     [digitChar (h div 10), digitChar (h mod 10), CHR '':'',
      digitChar (m div 10), digitChar (m mod 10)]"

definition spec_label :: "nat \<Rightarrow> nat \<Rightarrow> string" where
  "spec_label h m =
     (let h12 = (if h = 0 \<or> h = 12 then 12 else h mod 12) in
      (if h12 < 10 then [digitChar h12] else [CHR ''1'', digitChar (h12 - 10)])
        @ [CHR '':'', digitChar (m div 10), digitChar (m mod 10), CHR '' '']
        @ (if h < 12 then ''am'' else ''pm''))"

definition spec_option :: "nat \<Rightarrow> time_option" where
  "spec_option t =
     \<lparr>opt_value = spec_key (t div 60) (t mod 60),
      displayText = spec_label (t div 60) (t mod 60)\<rparr>"

text \<open>States for the examples.\<close>

definition emptyShell :: shell_state where
  "emptyShell =
     \<lparr>startDate = Null, endDate = Null, isOpen = True,
      localStartDate = None, localEndDate = None, changes = [], cleared = 0\<rparr>"

definition timePickerProps :: picker_props where
  "timePickerProps =
     \<lparr>limits = noBounds, showTimeSelect = True\<rparr>"

definition datePickerProps :: picker_props where
  "datePickerProps = timePickerProps\<lparr>showTimeSelect := False\<rparr>"

definition emptyPicker :: "Date \<Rightarrow> picker_state" where
  "emptyPicker d =
     \<lparr>currentDate = d, selectedDate = None, view = Days,
      yearRange = getYearRange d, selectedTime = None, emitted = []\<rparr>"

text \<open>
  A range calendar mounted without bounds or committed pair on 2024-05-15, the state
  after choosing October in the month grid of the right side, a run that steps the
  right month grid one year back and leaves it through the year grid, and a run that
  browses and picks without moving the right side alone.
\<close>

definition mountedMay2024 :: range_state where
  "mountedMay2024 =
     range_init noBounds Undefined Undefined (Some (ymd 2024 4 15)) (ymd 2024 4 15)"

definition octoberPicked :: range_state where
  "octoberPicked =
     range_run noBounds [ToggleView RightSide, MonthSelect RightSide 9] mountedMay2024"

definition yearArrowsRun :: "range_event list" where
  "yearArrowsRun =
     [ToggleView RightSide, Navigate Prev, ToggleView RightSide, ToggleView RightSide]"

definition browsingRun :: "range_event list" where
  "browsingRun =
     [Navigate Next, ToggleView LeftSide, Navigate Prev, MonthSelect LeftSide 0,
      Pick (ymd 2023 0 10), ToggleView RightSide, ToggleView RightSide, Navigate Next,
      ToggleView RightSide]"

text \<open>
  Bounds for the examples: the working hours of May 2024, and bounds whose minimum is
  after their maximum. Two shells: one with a complete pending pair and nothing
  committed, one with a committed pair and only a start pending.
\<close>

definition may2024Bounds :: bounds where
  "may2024Bounds = \<lparr>minDate = Some (ymdhms 2024 4 1 9 0 0 0), maxDate = Some (ymdhms 2024 4 31 17 0 0 0)\<rparr>"

definition invertedBounds :: bounds where
  "invertedBounds = \<lparr>minDate = Some (ymd 2024 4 10), maxDate = Some (ymd 2024 4 1)\<rparr>"

definition pendingShell :: shell_state where
  "pendingShell =
     emptyShell\<lparr>localStartDate := Some (ymd 2024 4 3), localEndDate := Some (ymd 2024 4 10)\<rparr>"

definition startOnlyShell :: shell_state where
  "startOnlyShell =
     emptyShell\<lparr>startDate := Given (ymd 2024 3 1), endDate := Given (ymd 2024 3 5),
       localStartDate := Some (ymd 2024 4 3)\<rparr>"

section \<open>Calendar arithmetic\<close>

lemma div_pred:
  fixes y k :: int
  assumes "0 < k"
  shows "(y - 1) div k = (if y mod k = 0 then y div k - 1 else y div k)"
proof (cases "y mod k = 0")
  case True
  then obtain q where q: "y = k * q" by auto
  have "(k * q - 1) = (k - 1) + (q - 1) * k" by (simp add: algebra_simps)
  then have "(k * q - 1) div k = (k - 1) div k + (q - 1)"
    by (metis div_mult_self1 assms less_irrefl mult.commute add.commute div_mult_self2)
  then show ?thesis using True q assms by simp
next
  case False
  define r where "r = y mod k"
  define q where "q = y div k"
  have y: "y = q * k + r" by (simp add: r_def q_def)
  have r0: "0 \<le> y mod k" using assms by (rule pos_mod_sign)
  have r1: "y mod k < k" using assms by (rule pos_mod_bound)
  have r: "0 < r" "r < k" using False r0 r1 by (simp_all add: r_def)
  have "(y - 1) = (r - 1) + q * k" using y by simp
  then have "(y - 1) div k = (r - 1) div k + q"
    using assms by (metis div_mult_self2 less_irrefl add.commute div_mult_self1)
  then show ?thesis using False r by (simp add: q_def)
qed

lemma daysBeforeYear_Suc:
  "daysBeforeYear (y + 1) = daysBeforeYear y + (if isLeapYear y then 366 else 365)"
proof -
  have a: "(y - 1) div 4 = (if y mod 4 = 0 then y div 4 - 1 else y div 4)"
    by (rule div_pred) simp
  have b: "(y - 1) div 100 = (if y mod 100 = 0 then y div 100 - 1 else y div 100)"
    by (rule div_pred) simp
  have c: "(y - 1) div 400 = (if y mod 400 = 0 then y div 400 - 1 else y div 400)"
    by (rule div_pred) simp
  have d: "y mod 400 = 0 \<Longrightarrow> y mod 100 = 0" "y mod 100 = 0 \<Longrightarrow> y mod 4 = 0"
    by (auto simp: mod_eq_0_iff_dvd elim: dvd_trans[rotated])
  show ?thesis
    unfolding daysBeforeYear_def isLeapYear_def using d
    by (simp add: a b c)
qed

lemma daysBeforeMonth_12:
  "daysBeforeMonth y 12 = (if isLeapYear y then 366 else 365)"
  by (simp add: eval_nat_numeral daysInMonth_def)

lemma daysInMonth_bounds: "28 \<le> daysInMonth y m" "daysInMonth y m \<le> 31"
  by (simp_all add: daysInMonth_def)

lemma monthStart_Suc:
  "monthStart (c + 1) = monthStart c + int (daysInMonth (c div 12) (nat (c mod 12)))"
proof (cases "c mod 12 = 11")
  case True
  have "c = 12 * (c div 12) + c mod 12" by simp
  then have e: "c + 1 = 12 * (c div 12 + 1) + 0" using True by simp
  have d: "(c + 1) div 12 = c div 12 + 1"
    by (rule int_div_pos_eq[OF e]) auto
  have m: "(c + 1) mod 12 = 0"
    by (rule int_mod_pos_eq[OF e]) auto
  have "daysBeforeMonth (c div 12) 12 = daysBeforeMonth (c div 12) 11 + daysInMonth (c div 12) 11"
    by (simp add: eval_nat_numeral)
  then show ?thesis
    using True by (simp add: monthStart_def d m daysBeforeYear_Suc daysBeforeMonth_12 split: if_splits)
next
  case False
  have r: "0 \<le> c mod 12" "c mod 12 < 12" by simp_all
  have e: "c + 1 = 12 * (c div 12) + (c mod 12 + 1)" by simp
  have d: "(c + 1) div 12 = c div 12"
    by (rule int_div_pos_eq[OF e]) (use False r in auto)
  have m: "(c + 1) mod 12 = c mod 12 + 1"
    by (rule int_mod_pos_eq[OF e]) (use False r in auto)
  have "nat (c mod 12 + 1) = Suc (nat (c mod 12))" by simp
  then show ?thesis by (simp add: monthStart_def d m)
qed

lemma monthStart_pred:
  "monthStart c = monthStart (c - 1) + int (daysInMonth ((c - 1) div 12) (nat ((c - 1) mod 12)))"
  using monthStart_Suc[of "c - 1"] by simp

lemma monthStart_less_Suc: "monthStart c < monthStart (c + 1)"
  using daysInMonth_bounds(1)[of "c div 12" "nat (c mod 12)"] by (simp add: monthStart_Suc)

lemma monthStart_mono_nat: "monthStart c \<le> monthStart (c + int k)"
proof (induction k)
  case 0
  then show ?case by simp
next
  case (Suc k)
  have lt: "monthStart (c + int k) < monthStart (c + int k + 1)" by (rule monthStart_less_Suc)
  have eq: "c + int (Suc k) = c + int k + 1" by simp
  show ?case unfolding eq using Suc lt by linarith
qed

lemma monthStart_mono: "c \<le> c' \<Longrightarrow> monthStart c \<le> monthStart c'"
  using monthStart_mono_nat[of c "nat (c' - c)"] by simp

lemma monthStart_strict_mono: "c < c' \<Longrightarrow> monthStart c < monthStart c'"
proof -
  assume "c < c'"
  then have "monthStart (c + 1) \<le> monthStart c'" by (intro monthStart_mono) simp
  then show ?thesis using monthStart_less_Suc[of c] by simp
qed

lemma monthStart_less_iff: "monthStart c < monthStart c' \<longleftrightarrow> c < c'"
proof
  assume "monthStart c < monthStart c'"
  then show "c < c'" using monthStart_mono[of c' c] by (cases "c < c'") auto
qed (rule monthStart_strict_mono)

lemma monthCount_div_mod:
  "monthIndex d < 12 \<Longrightarrow> monthCount d div 12 = fullYear d"
  "monthIndex d < 12 \<Longrightarrow> monthCount d mod 12 = int (monthIndex d)"
proof -
  assume a: "monthIndex d < 12"
  have e: "monthCount d = 12 * fullYear d + int (monthIndex d)" by (simp add: monthCount_def)
  show "monthCount d div 12 = fullYear d"
    by (rule int_div_pos_eq[OF e]) (use a in auto)
  show "monthCount d mod 12 = int (monthIndex d)"
    by (rule int_mod_pos_eq[OF e]) (use a in auto)
qed

lemma dayNumber_monthStart:
  "monthIndex d < 12 \<Longrightarrow> dayNumber d = monthStart (monthCount d) + int (dayOfMonth d) - 1"
  by (simp add: dayNumber_def monthStart_def monthCount_div_mod)

lemma dayNumber_less_of_monthCount_less:
  assumes "valid_date a" "valid_date b" "monthCount a < monthCount b"
  shows "dayNumber a < dayNumber b"
proof -
  have ma: "monthIndex a < 12" and mb: "monthIndex b < 12"
    using assms by (simp_all add: valid_date_def)
  have "dayNumber a < monthStart (monthCount a) + int (daysInMonth (fullYear a) (monthIndex a))"
    using assms(1) by (simp add: dayNumber_monthStart[OF ma] valid_date_def)
  also have "\<dots> = monthStart (monthCount a + 1)"
    by (simp add: monthStart_Suc monthCount_div_mod[OF ma])
  also have "\<dots> \<le> monthStart (monthCount b)"
    using assms(3) by (intro monthStart_mono) simp
  also have "\<dots> \<le> dayNumber b"
    using assms(2) by (simp add: dayNumber_monthStart[OF mb] valid_date_def)
  finally show ?thesis .
qed

lemma getTime_split: "getTime d = dayNumber d * 86400000 + timeOfDay d"
  by (simp add: getTime_def timeOfDay_def algebra_simps)

lemma timeOfDay_bounds:
  "0 \<le> timeOfDay d" "valid_date d \<Longrightarrow> timeOfDay d < 86400000"
  by (simp_all add: timeOfDay_def valid_date_def)

lemma getTime_less_of_dayNumber_less:
  assumes "valid_date a" "dayNumber a < dayNumber b"
  shows "getTime a < getTime b"
proof -
  have "getTime a < (dayNumber a + 1) * 86400000"
    using timeOfDay_bounds(2)[OF assms(1)] by (simp add: getTime_split algebra_simps)
  also have "\<dots> \<le> dayNumber b * 86400000" using assms(2) by simp
  also have "\<dots> \<le> getTime b" using timeOfDay_bounds(1)[of b] by (simp add: getTime_split)
  finally show ?thesis .
qed

lemma monthCount_le_of_getTime_le:
  assumes "valid_date a" "valid_date b" "getTime a \<le> getTime b"
  shows "monthCount a \<le> monthCount b"
proof (rule ccontr)
  assume "\<not> monthCount a \<le> monthCount b"
  then have "monthCount b < monthCount a" by simp
  then have "dayNumber b < dayNumber a"
    using assms by (intro dayNumber_less_of_monthCount_less)
  then have "getTime b < getTime a"
    using assms by (intro getTime_less_of_dayNumber_less)
  then show False using assms(3) by simp
qed

subsection \<open>Days\<close>

lemma nextDay_valid:
  assumes "valid_date d"
  shows "valid_date (nextDay d)"
proof (cases "dayOfMonth d + 1 \<le> daysInMonth (fullYear d) (monthIndex d)")
  case True
  then show ?thesis using assms by (simp add: valid_date_def nextDay_def rollDay_def Let_def)
next
  case False
  then have day: "dayOfMonth d = daysInMonth (fullYear d) (monthIndex d)"
    using assms by (simp add: valid_date_def)
  show ?thesis
  proof (cases "monthIndex d = 11")
    case True
    have "28 \<le> daysInMonth (fullYear d + 1) 0" by (rule daysInMonth_bounds)
    then show ?thesis
      using assms False True day by (simp add: valid_date_def nextDay_def rollDay_def Let_def)
  next
    case m: False
    have "28 \<le> daysInMonth (fullYear d) (Suc (monthIndex d))" by (rule daysInMonth_bounds)
    then show ?thesis
      using assms False m day by (simp add: valid_date_def nextDay_def rollDay_def Let_def)
  qed
qed

lemma nextDay_dayNumber:
  assumes "valid_date d"
  shows "dayNumber (nextDay d) = dayNumber d + 1"
proof (cases "dayOfMonth d + 1 \<le> daysInMonth (fullYear d) (monthIndex d)")
  case True
  then show ?thesis by (simp add: nextDay_def rollDay_def Let_def dayNumber_def)
next
  case False
  have m: "monthIndex d < 12" using assms by (simp add: valid_date_def)
  have day: "dayOfMonth d = daysInMonth (fullYear d) (monthIndex d)"
    using assms False by (simp add: valid_date_def)
  have m': "monthIndex (nextDay d) < 12"
    using nextDay_valid[OF assms] by (simp add: valid_date_def)
  have c: "monthCount (nextDay d) = monthCount d + 1"
    using False m by (auto simp: nextDay_def rollDay_def Let_def monthCount_def)
  have d1: "dayOfMonth (nextDay d) = 1"
    using False day by (simp add: nextDay_def rollDay_def Let_def)
  show ?thesis
    by (simp add: dayNumber_monthStart[OF m'] dayNumber_monthStart[OF m] c d1
        monthStart_Suc monthCount_div_mod[OF m] day)
qed

lemma prevDay_valid:
  assumes "valid_date d"
  shows "valid_date (prevDay d)"
proof (cases "1 < dayOfMonth d")
  case True
  then show ?thesis using assms by (auto simp add: valid_date_def prevDay_def)
next
  case False
  show ?thesis
  proof (cases "monthIndex d = 0")
    case True
    have "daysInMonth (fullYear d - 1) 11 = 31" by (simp add: daysInMonth_def)
    then show ?thesis
      using assms False True by (simp add: valid_date_def prevDay_def)
  next
    case m: False
    have "28 \<le> daysInMonth (fullYear d) (monthIndex d - 1)" by (rule daysInMonth_bounds)
    then show ?thesis
      using assms False m by (auto simp add: valid_date_def prevDay_def)
  qed
qed

lemma prevDay_dayNumber:
  assumes "valid_date d"
  shows "dayNumber (prevDay d) = dayNumber d - 1"
proof (cases "1 < dayOfMonth d")
  case True
  then show ?thesis by (simp add: prevDay_def dayNumber_def)
next
  case False
  have m: "monthIndex d < 12" using assms by (simp add: valid_date_def)
  have day: "dayOfMonth d = 1" using assms False by (simp add: valid_date_def)
  have m': "monthIndex (prevDay d) < 12"
    using prevDay_valid[OF assms] by (simp add: valid_date_def)
  have c: "monthCount (prevDay d) = monthCount d - 1"
    using False m by (auto simp: prevDay_def monthCount_def)
  have d1: "dayOfMonth (prevDay d) = daysInMonth (fullYear (prevDay d)) (monthIndex (prevDay d))"
    using False by (simp add: prevDay_def daysInMonth_def)
  have "monthStart (monthCount d) = monthStart (monthCount (prevDay d))
          + int (daysInMonth (fullYear (prevDay d)) (monthIndex (prevDay d)))"
    using monthStart_pred[of "monthCount d"] monthCount_div_mod[OF m'] by (simp add: c)
  then show ?thesis
    by (simp add: dayNumber_monthStart[OF m'] dayNumber_monthStart[OF m] d1 day)
qed

lemma addDays_0: "addDays d 0 = d"
  by (simp add: addDays_def)

lemma addDays_valid: "valid_date d \<Longrightarrow> valid_date (addDays d n)"
  by (induction n) (simp_all add: addDays_def nextDay_valid)

lemma addDays_dayNumber: "valid_date d \<Longrightarrow> dayNumber (addDays d n) = dayNumber d + int n"
proof (induction n)
  case 0
  then show ?case by (simp add: addDays_def)
next
  case (Suc n)
  have "valid_date (addDays d n)" using Suc.prems by (rule addDays_valid)
  then have "dayNumber (nextDay (addDays d n)) = dayNumber (addDays d n) + 1"
    by (rule nextDay_dayNumber)
  then show ?case using Suc by (simp add: addDays_def)
qed

lemma subDays_valid: "valid_date d \<Longrightarrow> valid_date (subDays d n)"
  by (induction n) (simp_all add: subDays_def prevDay_valid)

lemma subDays_dayNumber: "valid_date d \<Longrightarrow> dayNumber (subDays d n) = dayNumber d - int n"
proof (induction n)
  case 0
  then show ?case by (simp add: subDays_def)
next
  case (Suc n)
  have "valid_date (subDays d n)" using Suc.prems by (rule subDays_valid)
  then have "dayNumber (prevDay (subDays d n)) = dayNumber (subDays d n) - 1"
    by (rule prevDay_dayNumber)
  then show ?case using Suc by (simp add: subDays_def)
qed

lemma dayNumber_startOfDay: "dayNumber (startOfDay d) = dayNumber d"
  by (simp add: dayNumber_def startOfDay_def)

lemma dayNumber_endOfDay: "dayNumber (endOfDay d) = dayNumber d"
  by (simp add: dayNumber_def endOfDay_def)

lemma startOfDay_valid: "valid_date d \<Longrightarrow> valid_date (startOfDay d)"
  by (simp add: valid_date_def startOfDay_def)

lemma endOfDay_valid: "valid_date d \<Longrightarrow> valid_date (endOfDay d)"
  by (simp add: valid_date_def endOfDay_def)

lemma getTime_startOfDay_le: "getTime (startOfDay d) \<le> getTime d"
  using timeOfDay_bounds(1)[of d]
  by (simp add: getTime_split dayNumber_startOfDay) (simp add: timeOfDay_def startOfDay_def)

lemma getTime_endOfDay_ge:
  assumes "valid_date d"
  shows "getTime d \<le> getTime (endOfDay d)"
proof -
  have "timeOfDay d \<le> 86399999" using timeOfDay_bounds(2)[OF assms] by simp
  moreover have "timeOfDay (endOfDay d) = 86399999" by (simp add: timeOfDay_def endOfDay_def)
  ultimately show ?thesis by (simp add: getTime_split dayNumber_endOfDay)
qed

subsection \<open>Weeks\<close>

lemma getDay_less_7: "getDay d < 7"
  by (simp add: getDay_def)

lemma int_getDay: "int (getDay d) = (dayNumber d + 4) mod 7"
  by (simp add: getDay_def)

lemma dayNumber_startOfWeek:
  assumes "valid_date now"
  shows "dayNumber (startOfWeek now) = dayNumber now - int (getDay now)"
  by (simp add: startOfWeek_def dayNumber_startOfDay subDays_dayNumber[OF assms])

lemma dayNumber_endOfWeek:
  assumes "valid_date now"
  shows "dayNumber (endOfWeek now) = dayNumber now + int (6 - getDay now)"
  by (simp add: endOfWeek_def dayNumber_endOfDay addDays_dayNumber[OF assms])

lemma getDay_startOfWeek:
  assumes "valid_date now"
  shows "getDay (startOfWeek now) = 0"
proof -
  have "(dayNumber now - (dayNumber now + 4) mod 7 + 4) mod 7 = 0" by presburger
  then show ?thesis
    unfolding getDay_def[of "startOfWeek now"] dayNumber_startOfWeek[OF assms] int_getDay
    by simp
qed

lemma getDay_endOfWeek:
  assumes "valid_date now"
  shows "getDay (endOfWeek now) = 6"
proof -
  have "int (6 - getDay now) = 6 - (dayNumber now + 4) mod 7"
    using getDay_less_7[of now] int_getDay[of now] by simp
  moreover have "(dayNumber now + (6 - (dayNumber now + 4) mod 7) + 4) mod 7 = 6" by presburger
  ultimately show ?thesis
    unfolding getDay_def[of "endOfWeek now"] dayNumber_endOfWeek[OF assms]
    by simp
qed

subsection \<open>Months and years\<close>

lemma newDate_modern:
  "\<not> legacyYear y \<Longrightarrow>
     newDate y m day =
       \<lparr>fullYear = y + m div 12, monthIndex = nat (m mod 12), dayOfMonth = day,
        hours = 0, minutes = 0, seconds = 0, millis = 0\<rparr>"
  by (simp add: newDate_def)

lemma monthCount_newDate:
  "\<not> legacyYear y \<Longrightarrow> monthCount (newDate y m day) = y * 12 + m"
  by (simp add: monthCount_def newDate_modern algebra_simps)

lemma getTime_newDate_first:
  assumes "\<not> legacyYear y"
  shows "getTime (newDate y m 1) = monthStart (y * 12 + m) * 86400000"
proof -
  have "monthIndex (newDate y m 1) < 12" by (simp add: newDate_modern[OF assms])
  then have "dayNumber (newDate y m 1) = monthStart (monthCount (newDate y m 1))"
    by (simp add: dayNumber_monthStart) (simp add: newDate_modern[OF assms])
  then show ?thesis
    by (simp add: getTime_split monthCount_newDate[OF assms] timeOfDay_def)
       (simp add: newDate_modern[OF assms])
qed

lemma isBefore_first_of_month:
  assumes "\<not> legacyYear y" "\<not> legacyYear y'"
  shows "isBefore (newDate y m 1) (newDate y' m' 1) \<longleftrightarrow> y * 12 + m < y' * 12 + m'"
  unfolding isBefore_def getTime_newDate_first[OF assms(1)] getTime_newDate_first[OF assms(2)]
  by (simp add: monthStart_less_iff)

lemma monthCount_addMonths: "monthCount (addMonths d n) = monthCount d + n"
  by (simp add: addMonths_def monthCount_def Let_def)

lemma addMonths_valid:
  assumes "valid_date d"
  shows "valid_date (addMonths d n)"
proof -
  have "28 \<le> daysInMonth ((monthCount d + n) div 12) (nat ((monthCount d + n) mod 12))"
    by (rule daysInMonth_bounds)
  then show ?thesis
    using assms by (simp add: valid_date_def addMonths_def Let_def)
qed

lemma rollDay_valid:
  assumes "monthIndex d < 12" "1 \<le> dayOfMonth d" "dayOfMonth d \<le> 31"
    and "hours d < 24" "minutes d < 60" "seconds d < 60" "millis d < 1000"
  shows "valid_date (rollDay d)"
proof (cases "dayOfMonth d \<le> daysInMonth (fullYear d) (monthIndex d)")
  case True
  then show ?thesis using assms by (simp add: rollDay_def valid_date_def)
next
  case False
  have lo: "28 \<le> daysInMonth (fullYear d) (monthIndex d)" by (rule daysInMonth_bounds)
  have n1: "28 \<le> daysInMonth (fullYear d + 1) 0"
    and n2: "28 \<le> daysInMonth (fullYear d) (monthIndex d + 1)"
    by (rule daysInMonth_bounds)+
  show ?thesis
    using assms False lo n1 n2 by (auto simp add: rollDay_def valid_date_def Let_def)
qed

lemma valid_date_day_le_31: "valid_date d \<Longrightarrow> dayOfMonth d \<le> 31"
  using daysInMonth_bounds(2)[of "fullYear d" "monthIndex d"] by (simp add: valid_date_def)

lemma setFullYear_valid:
  assumes "valid_date d"
  shows "valid_date (setFullYear d y)"
  unfolding setFullYear_def
  using assms valid_date_day_le_31[OF assms]
  by (intro rollDay_valid) (simp_all add: valid_date_def)

lemma setMonth_valid:
  assumes "valid_date d"
  shows "valid_date (setMonth d m)"
  unfolding setMonth_def
  using assms valid_date_day_le_31[OF assms]
  by (intro rollDay_valid) (simp_all add: valid_date_def)

lemma normalized_valid:
  assumes "valid_bounds b"
  shows "normalizedMinDate b = Some mn \<Longrightarrow> valid_date mn"
    and "normalizedMaxDate b = Some mx \<Longrightarrow> valid_date mx"
  using assms
  by (auto simp: valid_bounds_def normalizedMinDate_def normalizedMaxDate_def normalizeDate_def
      startOfDay_valid endOfDay_valid split: option.splits)

lemma clampToBounds_valid:
  assumes "valid_bounds b" "valid_date d"
  shows "valid_date (clampToBounds b d)"
  using assms normalized_valid[OF assms(1)]
  by (auto simp: clampToBounds_def split: option.splits)

subsection \<open>Hours and minutes\<close>

lemma setHours_small: "h < 24 \<Longrightarrow> setHours d h = d\<lparr>hours := h\<rparr>"
  by (simp add: setHours_def addDays_0)

lemma setMinutes_small:
  assumes "hours d < 24" "m < 60"
  shows "setMinutes d m = d\<lparr>minutes := m\<rparr>"
proof -
  have "hours d * 60 + m < 1440" using assms by simp
  then have "(hours d * 60 + m) div 1440 = 0" by simp
  moreover have "(hours d * 60 + m) div 60 = hours d" using assms by simp
  ultimately show ?thesis using assms by (simp add: setMinutes_def Let_def addDays_0)
qed

section \<open>Time strings\<close>

lemma digit_disj:
  "k < (10::nat) \<Longrightarrow>
     k = 0 \<or> k = 1 \<or> k = 2 \<or> k = 3 \<or> k = 4 \<or> k = 5 \<or> k = 6 \<or> k = 7 \<or> k = 8 \<or> k = 9"
  by arith

lemma digit_cases:
  assumes "k < (10::nat)"
  obtains "k = 0" | "k = 1" | "k = 2" | "k = 3" | "k = 4"
    | "k = 5" | "k = 6" | "k = 7" | "k = 8" | "k = 9"
  using digit_disj[OF assms] by blast

lemma digitChar_simps:
  "digitChar 0 = CHR ''0''" "digitChar 1 = CHR ''1''" "digitChar 2 = CHR ''2''"
  "digitChar 3 = CHR ''3''" "digitChar 4 = CHR ''4''" "digitChar 5 = CHR ''5''"
  "digitChar 6 = CHR ''6''" "digitChar 7 = CHR ''7''" "digitChar 8 = CHR ''8''"
  "digitChar 9 = CHR ''9''" "digitChar (Suc 0) = CHR ''1''"
  by (simp_all add: digitChar_def)

lemma digitValue_digitChar:
  assumes "k < 10"
  shows "digitValue (digitChar k) = Some k"
  using assms by (rule digit_cases) (simp_all add: digitChar_simps digitValue_def)

lemma digitChar_not_colon:
  assumes "k < 10"
  shows "digitChar k \<noteq> CHR '':''"
  using assms by (rule digit_cases) (simp_all add: digitChar_simps)

lemma toString_small: "n < 10 \<Longrightarrow> toString n = [digitChar n]"
  by (subst toString.simps) simp

lemma toString_two:
  assumes "10 \<le> n" "n < 100"
  shows "toString n = [digitChar (n div 10), digitChar (n mod 10)]"
proof -
  have "n div 10 < 10" using assms by simp
  then have "toString (n div 10) = [digitChar (n div 10)]" by (rule toString_small)
  then show ?thesis using assms by (subst toString.simps) simp
qed

lemma pad2:
  assumes "n < 100"
  shows "padStart 2 (CHR ''0'') (toString n) = [digitChar (n div 10), digitChar (n mod 10)]"
proof (cases "n < 10")
  case True
  then show ?thesis by (simp add: toString_small padStart_def digitChar_simps)
next
  case False
  then show ?thesis using assms by (simp add: toString_two padStart_def)
qed

lemma Number_two_digits:
  assumes "a < 10" "c < 10"
  shows "Number [digitChar a, digitChar c] = Some (10 * a + c)"
  using assms by (simp add: Number_def digitValue_digitChar)

lemma split_key:
  assumes "a < 10" "c < 10" "d < 10" "e < 10"
  shows "split (CHR '':'') [digitChar a, digitChar c, CHR '':'', digitChar d, digitChar e]
           = [[digitChar a, digitChar c], [digitChar d, digitChar e]]"
  using assms by (simp add: digitChar_not_colon)

lemma parseTime_spec_key:
  assumes "h < 100" "m < 100"
  shows "parseTime (spec_key h m) = (Some h, Some m)"
proof -
  have d: "h div 10 < 10" "h mod 10 < 10" "m div 10 < 10" "m mod 10 < 10"
    using assms by simp_all
  show ?thesis
    unfolding parseTime_def spec_key_def split_key[OF d]
    by (simp add: Number_two_digits d)
qed

lemma formatHHmm_spec_key:
  assumes "hours d < 100" "minutes d < 100"
  shows "formatHHmm d = spec_key (hours d) (minutes d)"
  using assms by (simp add: formatHHmm_def spec_key_def pad2)

lemma timeOption_spec:
  assumes "t < 1440"
  shows "timeOption t = spec_option t"
proof -
  have h: "t div 60 < 24" using assms by simp
  have m: "t mod 60 < 60" by simp
  have key: "padStart 2 (CHR ''0'') (toString (t div 60)) @ '':''
               @ padStart 2 (CHR ''0'') (toString (t mod 60))
             = spec_key (t div 60) (t mod 60)"
    using h m by (simp add: pad2 spec_key_def)
  have h12: "(if (t div 60) mod 12 = 0 then 12 else (t div 60) mod 12)
             = (if t div 60 = 0 \<or> t div 60 = 12 then 12 else (t div 60) mod 12)"
    using h by auto
  have hs: "toString (if t div 60 = 0 \<or> t div 60 = 12 then 12 else (t div 60) mod 12)
            = (let h12 = (if t div 60 = 0 \<or> t div 60 = 12 then 12 else (t div 60) mod 12)
               in if h12 < 10 then [digitChar h12] else [CHR ''1'', digitChar (h12 - 10)])"
  proof (cases "(if t div 60 = 0 \<or> t div 60 = 12 then 12 else (t div 60) mod 12) < 10")
    case True
    then show ?thesis by (simp add: toString_small Let_def)
  next
    case False
    define h12 where "h12 = (if t div 60 = 0 \<or> t div 60 = 12 then 12 else (t div 60) mod 12)"
    have r: "10 \<le> h12" "h12 < 13" using False by (auto simp: h12_def)
    then have "h12 = 10 \<or> h12 = 11 \<or> h12 = 12" by arith
    then have "h12 div 10 = 1" "h12 mod 10 = h12 - 10" by auto
    then have "toString h12 = [CHR ''1'', digitChar (h12 - 10)]"
      using r by (simp add: toString_two digitChar_simps)
    then show ?thesis using r by (simp add: h12_def[symmetric] Let_def)
  qed
  have per: "(if t div 60 \<ge> 12 then ''pm'' else ''am'') = (if t div 60 < 12 then ''am'' else ''pm'')"
    by simp
  show ?thesis
    unfolding timeOption_def spec_option_def spec_label_def Let_def key h12 hs per
    using m by (simp add: pad2 Let_def)
qed

lemma combineDateAndTime_spec_key:
  assumes "h < 24" "m < 60"
  shows "combineDateAndTime d (spec_key h m) = Instant (d\<lparr>hours := h, minutes := m\<rparr>)"
proof -
  have "parseTime (spec_key h m) = (Some h, Some m)"
    using assms by (intro parseTime_spec_key) simp_all
  then show ?thesis
    using assms by (simp add: combineDateAndTime_def setHours_small setMinutes_small)
qed

section \<open>The bounds check\<close>

lemma isDateInRange_iff:
  "isDateInRange b d \<longleftrightarrow>
     (case minDate b of None \<Rightarrow> True | Some mn \<Rightarrow> getTime (startOfDay mn) \<le> getTime d) \<and>
     (case maxDate b of None \<Rightarrow> True | Some mx \<Rightarrow> getTime d \<le> getTime (endOfDay mx))"
  by (auto simp: isDateInRange_def beforeMin_def afterMax_def normalizedMinDate_def
      normalizedMaxDate_def normalizeDate_def isBefore_def isAfter_def split: option.splits)

text \<open>
  C6, as the code has it. For every date and every pair of bounds, \<open>isDateInRange\<close> is
  true exactly when the date is not before the minimum floored to the start of its day
  and not after the maximum ceiled to the end of its day, an absent bound leaving its
  side open; so every instant strictly outside the normalized bounds is rejected. A
  normalized bound is itself in range exactly when the normalized minimum is not after
  the normalized maximum (always, when the other bound is absent); this is so whenever
  the minimum is not after the maximum, and then the two bounds as given are in range
  too.
\<close>

theorem isDateInRange_inclusive:
  "(isDateInRange b d \<longleftrightarrow>
      (case minDate b of None \<Rightarrow> True | Some mn \<Rightarrow> getTime (startOfDay mn) \<le> getTime d) \<and>
      (case maxDate b of None \<Rightarrow> True | Some mx \<Rightarrow> getTime d \<le> getTime (endOfDay mx))) \<and>
   (minDate b = Some mn \<and> getTime d < getTime (startOfDay mn) \<longrightarrow> \<not> isDateInRange b d) \<and>
   (maxDate b = Some mx \<and> getTime (endOfDay mx) < getTime d \<longrightarrow> \<not> isDateInRange b d) \<and>
   (minDate b = Some mn \<and> maxDate b = None \<longrightarrow> isDateInRange b (startOfDay mn)) \<and>
   (minDate b = None \<and> maxDate b = Some mx \<longrightarrow> isDateInRange b (endOfDay mx)) \<and>
   (minDate b = Some mn \<and> maxDate b = Some mx \<longrightarrow>
      (isDateInRange b (startOfDay mn) \<longleftrightarrow> getTime (startOfDay mn) \<le> getTime (endOfDay mx)) \<and>
      (isDateInRange b (endOfDay mx) \<longleftrightarrow> getTime (startOfDay mn) \<le> getTime (endOfDay mx))) \<and>
   (minDate b = Some mn \<and> maxDate b = Some mx \<and> valid_date mx \<and> getTime mn \<le> getTime mx \<longrightarrow>
      isDateInRange b (startOfDay mn) \<and> isDateInRange b (endOfDay mx) \<and>
      isDateInRange b mn \<and> isDateInRange b mx)"
proof -
  have a: "valid_date mx \<Longrightarrow> getTime mn \<le> getTime mx \<Longrightarrow>
           getTime (startOfDay mn) \<le> getTime (endOfDay mx)"
    using getTime_startOfDay_le[of mn] getTime_endOfDay_ge[of mx] by simp
  show ?thesis
    unfolding isDateInRange_iff
    using a getTime_startOfDay_le[of mn] getTime_endOfDay_ge[of mx]
    by (auto split: option.splits)
qed

theorem isDateInRange_may_2024:
  "isDateInRange may2024Bounds (ymd 2024 4 1) \<and>
   isDateInRange may2024Bounds (ymdhms 2024 4 31 23 59 59 999) \<and>
   isDateInRange may2024Bounds (ymdhms 2024 4 1 9 0 0 0) \<and>
   isDateInRange may2024Bounds (ymdhms 2024 4 31 17 0 0 0) \<and>
   \<not> isDateInRange may2024Bounds (ymdhms 2024 3 30 23 59 59 999) \<and>
   \<not> isDateInRange may2024Bounds (ymd 2024 5 1)"
proof -
  let ?mn = "ymdhms 2024 4 1 9 0 0 0" and ?mx = "ymdhms 2024 4 31 17 0 0 0"
  have m: "minDate may2024Bounds = Some ?mn" "maxDate may2024Bounds = Some ?mx"
    by (simp_all add: may2024Bounds_def)
  have v: "valid_date ?mx" "getTime ?mn \<le> getTime ?mx" by code_simp+
  have s: "startOfDay ?mn = ymd 2024 4 1" "endOfDay ?mx = ymdhms 2024 4 31 23 59 59 999"
    by code_simp+
  have lo: "getTime (ymdhms 2024 3 30 23 59 59 999) < getTime (startOfDay ?mn)"
    and hi: "getTime (endOfDay ?mx) < getTime (ymd 2024 5 1)" by code_simp+
  note t1 = isDateInRange_inclusive[of may2024Bounds _ ?mn ?mx]
  have in4: "isDateInRange may2024Bounds (startOfDay ?mn) \<and> isDateInRange may2024Bounds (endOfDay ?mx) \<and>
      isDateInRange may2024Bounds ?mn \<and> isDateInRange may2024Bounds ?mx"
    using t1[of ?mn] m v by blast
  have out1: "\<not> isDateInRange may2024Bounds (ymdhms 2024 3 30 23 59 59 999)"
    using t1[of "ymdhms 2024 3 30 23 59 59 999"] m lo by blast
  have out2: "\<not> isDateInRange may2024Bounds (ymd 2024 5 1)"
    using t1[of "ymd 2024 5 1"] m hi by blast
  show ?thesis using in4 out1 out2 unfolding s by simp
qed

text \<open>
  With a minimum after the maximum no date is in range, the normalized bounds included:
  for the minimum 2024-05-10 and the maximum 2024-05-01, neither 2024-05-10 00:00 nor
  2024-05-01 23:59:59.999 is in range.
\<close>

theorem normalized_bounds_out_of_range:
  "normalizedMinDate invertedBounds = Some (ymd 2024 4 10) \<and>
   normalizedMaxDate invertedBounds = Some (ymdhms 2024 4 1 23 59 59 999) \<and>
   \<not> isDateInRange invertedBounds (ymd 2024 4 10) \<and>
   \<not> isDateInRange invertedBounds (ymdhms 2024 4 1 23 59 59 999)"
  by code_simp

section \<open>The single-date calendar\<close>

text \<open>
  C4, as the code has it. For every date \<open>d\<close> the bounds accept and every time \<open>HH:mm\<close>
  (hours below 24, minutes below 60): a date pick of \<open>d\<close> followed by a time pick commits
  \<open>d\<close> with its hour set to \<open>HH\<close> and its minute to \<open>mm\<close>, the calendar date, the seconds
  and the milliseconds being those of \<open>d\<close> (after the date itself, when time selection is
  disabled). A time pick with no date selected commits nothing. A date pick commits the
  date itself when time selection is disabled and nothing when it is enabled, whatever
  time was selected before it.
\<close>

theorem date_then_time_commits_combined:
  assumes "isDateInRange (limits p) d" and "h < 24" and "m < 60"
  shows "emitted (handleTimeSelect (spec_key h m) (handleDateSelect p d s))
           = emitted s @ (if showTimeSelect p then [] else [Instant d])
               @ [Instant (d\<lparr>hours := h, minutes := m\<rparr>)] \<and>
         emitted (handleDateSelect p d s)
           = emitted s @ (if showTimeSelect p then [] else [Instant d]) \<and>
         selectedDate (handleDateSelect p d s) = Some d \<and>
         selectedTime (handleDateSelect p d s) = selectedTime s \<and>
         selectedTime (handleTimeSelect (spec_key h m) s) = Some (spec_key h m) \<and>
         selectedDate (handleTimeSelect (spec_key h m) s) = selectedDate s \<and>
         (selectedDate s = None \<longrightarrow>
            emitted (handleTimeSelect (spec_key h m) s) = emitted s)"
  using assms
  by (simp add: handleTimeSelect_def handleDateSelect_def emit_def Let_def
      combineDateAndTime_spec_key split: option.splits)

theorem date_then_time_2024_03_10:
  "isDateInRange (limits timePickerProps) (ymd 2024 2 10) \<and> (14::nat) < 24 \<and> (30::nat) < 60 \<and>
   selectedDate (emptyPicker (ymd 2024 2 1)) = None \<and>
   emitted (handleTimeSelect ''14:30''
              (handleDateSelect timePickerProps (ymd 2024 2 10) (emptyPicker (ymd 2024 2 1))))
     = [Instant (ymdhms 2024 2 10 14 30 0 0)] \<and>
   emitted (handleTimeSelect ''14:30'' (emptyPicker (ymd 2024 2 1))) = []"
proof -
  have h: "isDateInRange (limits timePickerProps) (ymd 2024 2 10)" by code_simp
  have k: "spec_key 14 30 = ''14:30''" by code_simp
  have r: "(ymd 2024 2 10)\<lparr>hours := 14, minutes := 30\<rparr> = ymdhms 2024 2 10 14 30 0 0"
    by (simp add: ymd_def ymdhms_def)
  have e: "selectedDate (emptyPicker (ymd 2024 2 1)) = None"
    "emitted (emptyPicker (ymd 2024 2 1)) = []"
    "showTimeSelect timePickerProps"
    by (simp_all add: emptyPicker_def timePickerProps_def)
  show ?thesis
    using h e date_then_time_commits_combined[OF h, of 14 30 "emptyPicker (ymd 2024 2 1)"]
    unfolding k r by simp
qed

text \<open>
  With time selection enabled, picking the time 14:30 and then the date 2024-03-10
  commits nothing at all. Picking the date 2024-03-10, then the time 14:30, then the
  date 2024-03-12 leaves 2024-03-10 14:30 as the only committed value, although the
  selected date is 2024-03-12 and the selected time 14:30. And picking the instant
  2024-03-10 09:15:42.007 and then the time 14:30 commits 2024-03-10 14:30:42.007, its
  seconds and milliseconds kept.
\<close>

theorem time_then_date_commits_nothing:
  "isDateInRange (limits timePickerProps) (ymd 2024 2 10) \<and>
   emitted (handleDateSelect timePickerProps (ymd 2024 2 10)
              (handleTimeSelect ''14:30'' (emptyPicker (ymd 2024 2 1)))) = [] \<and>
   isDateInRange (limits timePickerProps) (ymd 2024 2 12) \<and>
   emitted (handleDateSelect timePickerProps (ymd 2024 2 12)
              (handleTimeSelect ''14:30''
                 (handleDateSelect timePickerProps (ymd 2024 2 10)
                    (emptyPicker (ymd 2024 2 1)))))
     = [Instant (ymdhms 2024 2 10 14 30 0 0)] \<and>
   selectedDate (handleDateSelect timePickerProps (ymd 2024 2 12)
              (handleTimeSelect ''14:30''
                 (handleDateSelect timePickerProps (ymd 2024 2 10)
                    (emptyPicker (ymd 2024 2 1)))))
     = Some (ymd 2024 2 12) \<and>
   selectedTime (handleDateSelect timePickerProps (ymd 2024 2 12)
              (handleTimeSelect ''14:30''
                 (handleDateSelect timePickerProps (ymd 2024 2 10)
                    (emptyPicker (ymd 2024 2 1)))))
     = Some ''14:30'' \<and>
   isDateInRange (limits timePickerProps) (ymdhms 2024 2 10 9 15 42 7) \<and>
   emitted (handleTimeSelect ''14:30''
              (handleDateSelect timePickerProps (ymdhms 2024 2 10 9 15 42 7)
                 (emptyPicker (ymd 2024 2 1))))
     = [Instant (ymdhms 2024 2 10 14 30 42 7)]"
  by code_simp

text \<open>
  C8. When today is within the bounds, \<open>handleSelectToday\<close> sets the selected date and
  the viewed date to today and the view to days, and commits today at once when time
  selection is disabled; a second call with the same today changes nothing but the
  record of commits, where it commits the same value again. When today is out of bounds
  the call changes nothing.
\<close>

theorem selectToday_twice:
  "(if isDateInRange (limits p) today
    then selectedDate (handleSelectToday p today s) = Some today \<and>
         currentDate (handleSelectToday p today s) = today \<and>
         view (handleSelectToday p today s) = Days \<and>
         emitted (handleSelectToday p today s)
           = emitted s @ (if showTimeSelect p then [] else [Instant today]) \<and>
         handleSelectToday p today (handleSelectToday p today s)
           = (handleSelectToday p today s)
               \<lparr>emitted := emitted (handleSelectToday p today s)
                              @ (if showTimeSelect p then [] else [Instant today])\<rparr>
    else handleSelectToday p today s = s)"
  by (simp add: handleSelectToday_def emit_def Let_def)

theorem selectToday_twice_2024_05_10:
  "isDateInRange (limits datePickerProps) (ymdhms 2024 4 10 8 15 0 0) \<and>
   emitted (handleSelectToday datePickerProps (ymdhms 2024 4 10 8 15 0 0)
              (emptyPicker (ymd 2024 0 1)))
     = [Instant (ymdhms 2024 4 10 8 15 0 0)] \<and>
   emitted (handleSelectToday datePickerProps (ymdhms 2024 4 10 8 15 0 0)
              (handleSelectToday datePickerProps (ymdhms 2024 4 10 8 15 0 0)
                 (emptyPicker (ymd 2024 0 1))))
     = [Instant (ymdhms 2024 4 10 8 15 0 0), Instant (ymdhms 2024 4 10 8 15 0 0)] \<and>
   selectedDate (handleSelectToday datePickerProps (ymdhms 2024 4 10 8 15 0 0)
              (handleSelectToday datePickerProps (ymdhms 2024 4 10 8 15 0 0)
                 (emptyPicker (ymd 2024 0 1))))
     = Some (ymdhms 2024 4 10 8 15 0 0)"
proof -
  have h: "isDateInRange (limits datePickerProps) (ymdhms 2024 4 10 8 15 0 0)" by code_simp
  have e: "emitted (emptyPicker (ymd 2024 0 1)) = []" "\<not> showTimeSelect datePickerProps"
    by (simp_all add: emptyPicker_def datePickerProps_def timePickerProps_def)
  note t = selectToday_twice[of datePickerProps "ymdhms 2024 4 10 8 15 0 0"
      "emptyPicker (ymd 2024 0 1)", unfolded if_P[OF h]]
  show ?thesis using h t e by simp
qed

text \<open>
  C10. When the external value becomes \<open>null\<close>, the selected date and time are reset to
  \<open>null\<close> and the viewed date, the view, the year window and the commits are left as they
  were. When it becomes a date, the selected date and the viewed date become that date
  and the selected time becomes its \<open>HH:mm\<close> (which reads back as its hour and minute),
  the view being left as it was. An \<open>undefined\<close> value changes nothing.
\<close>

theorem syncValue_frame:
  "selectedDate (syncValue Null s) = None \<and>
   selectedTime (syncValue Null s) = None \<and>
   currentDate (syncValue Null s) = currentDate s \<and>
   view (syncValue Null s) = view s \<and>
   yearRange (syncValue Null s) = yearRange s \<and>
   emitted (syncValue Null s) = emitted s \<and>
   selectedDate (syncValue (Given v) s) = Some v \<and>
   currentDate (syncValue (Given v) s) = v \<and>
   selectedTime (syncValue (Given v) s) = Some (formatHHmm v) \<and>
   view (syncValue (Given v) s) = view s \<and>
   yearRange (syncValue (Given v) s) = yearRange s \<and>
   emitted (syncValue (Given v) s) = emitted s \<and>
   syncValue Undefined s = s \<and>
   (valid_date v \<longrightarrow>
      formatHHmm v = spec_key (hours v) (minutes v) \<and>
      parseTime (formatHHmm v) = (Some (hours v), Some (minutes v)))"
proof -
  have "formatHHmm v = spec_key (hours v) (minutes v)" if "valid_date v"
    using that by (intro formatHHmm_spec_key) (simp_all add: valid_date_def)
  moreover have "parseTime (spec_key (hours v) (minutes v)) = (Some (hours v), Some (minutes v))"
    if "valid_date v"
    using that by (intro parseTime_spec_key) (simp_all add: valid_date_def)
  ultimately show ?thesis by (simp add: syncValue_def)
qed

theorem syncValue_2024_03_10:
  "valid_date (ymdhms 2024 2 10 14 30 0 0) \<and>
   selectedDate (syncValue (Given (ymdhms 2024 2 10 14 30 0 0)) (emptyPicker (ymd 2024 0 1)))
     = Some (ymdhms 2024 2 10 14 30 0 0) \<and>
   currentDate (syncValue (Given (ymdhms 2024 2 10 14 30 0 0)) (emptyPicker (ymd 2024 0 1)))
     = ymdhms 2024 2 10 14 30 0 0 \<and>
   selectedTime (syncValue (Given (ymdhms 2024 2 10 14 30 0 0)) (emptyPicker (ymd 2024 0 1)))
     = Some ''14:30'' \<and>
   currentDate (syncValue Null
       (syncValue (Given (ymdhms 2024 2 10 14 30 0 0)) (emptyPicker (ymd 2024 0 1))))
     = ymdhms 2024 2 10 14 30 0 0 \<and>
   selectedDate (syncValue Null
       (syncValue (Given (ymdhms 2024 2 10 14 30 0 0)) (emptyPicker (ymd 2024 0 1))))
     = None"
proof -
  let ?v = "ymdhms 2024 2 10 14 30 0 0"
  have h: "valid_date ?v" by code_simp
  have k: "spec_key (hours ?v) (minutes ?v) = ''14:30''" by code_simp
  note t1 = syncValue_frame[of "emptyPicker (ymd 2024 0 1)" ?v]
  note t2 = syncValue_frame[of "syncValue (Given ?v) (emptyPicker (ymd 2024 0 1))" ?v]
  show ?thesis using h k t1 t2 by simp
qed

section \<open>The time list\<close>

lemma spec_times_empty: "hi < lo \<Longrightarrow> spec_times lo hi interval = []"
  by (simp add: spec_times_def)

lemma spec_times_step:
  assumes "0 < interval" "lo \<le> hi"
  shows "spec_times lo hi interval = lo # spec_times (lo + interval) hi interval"
proof (cases "lo + interval \<le> hi")
  case True
  then have "interval \<le> hi - lo" by simp
  then have n: "(hi - lo) div interval = Suc ((hi - lo - interval) div interval)"
    using assms(1) by (simp add: le_div_geq)
  have u: "[0 ..< Suc (Suc ((hi - lo - interval) div interval))]
           = 0 # map Suc [0 ..< Suc ((hi - lo - interval) div interval)]"
    unfolding map_Suc_upt by (rule upt_conv_Cons) simp
  have d: "hi - (lo + interval) = hi - lo - interval" by simp
  show ?thesis
    using assms True
    by (simp only: spec_times_def n u d Suc_eq_plus1[symmetric]) (simp add: comp_def)
next
  case False
  then have "(hi - lo) div interval = 0" using assms by simp
  then show ?thesis using assms False by (simp add: spec_times_def)
qed

lemma spec_times_le:
  assumes "t \<in> set (spec_times lo hi interval)"
  shows "t \<le> hi"
proof -
  from assms have le: "lo \<le> hi"
    by (auto simp: spec_times_def split: if_splits)
  from assms have "t \<in> (\<lambda>k. lo + k * interval) ` {0 ..< (hi - lo) div interval + 1}"
    by (auto simp: spec_times_def split: if_splits)
  then have "\<exists>k. t = lo + k * interval \<and> k < (hi - lo) div interval + 1"
    unfolding image_iff Bex_def atLeastLessThan_iff by blast
  then obtain k where "t = lo + k * interval" "k < (hi - lo) div interval + 1"
    by blast
  then have k: "t = lo + k * interval" "k \<le> (hi - lo) div interval"
    by simp_all
  have "k * interval \<le> ((hi - lo) div interval) * interval"
    using k(2) by (rule mult_le_mono1)
  also have "\<dots> \<le> hi - lo" by simp
  finally show ?thesis using k le by simp
qed

lemma timeLoop_spec:
  assumes "0 < interval"
  shows "timeLoop i hi interval acc = Some (acc @ map timeOption (spec_times i hi interval))"
proof (induction "Suc hi - i" arbitrary: i acc rule: less_induct)
  case less
  show ?case
  proof (cases "i \<le> hi")
    case True
    have "Suc hi - (i + interval) < Suc hi - i" using True assms by simp
    then have "timeLoop (i + interval) hi interval (acc @ [timeOption i])
               = Some ((acc @ [timeOption i]) @ map timeOption (spec_times (i + interval) hi interval))"
      by (rule less)
    then show ?thesis
      using True by (subst timeLoop.simps) (simp add: spec_times_step[OF assms True])
  next
    case False
    then show ?thesis by (subst timeLoop.simps) (simp add: spec_times_empty)
  qed
qed

text \<open>
  C3. For every \<open>minTime\<close> and \<open>maxTime\<close> written \<open>HH:mm\<close> (hours below 24, minutes below
  60) and every positive interval, \<open>generateTimeOptions\<close> returns, and returns exactly
  the times of day \<open>minTime\<close>, \<open>minTime + interval\<close>, ... up to \<open>maxTime\<close> inclusive, in
  order: the empty list when \<open>minTime\<close> is after \<open>maxTime\<close>, and a list that starts with
  \<open>minTime\<close> otherwise. Each option carries the zero-padded 24-hour key \<open>HH:mm\<close> and the
  12-hour label \<open>h:mm am/pm\<close> in which the hours 0 and 12 both read 12. From 09:00 to
  10:00 by 30 minutes the options are 09:00 / 9:00 am, 09:30 / 9:30 am and
  10:00 / 10:00 am.
\<close>

theorem generateTimeOptions_enumerates:
  assumes "h1 < 24" and "m1 < 60" and "h2 < 24" and "m2 < 60" and "0 < interval"
  shows "generateTimeOptions (spec_key h1 m1) (spec_key h2 m2) interval
           = Some (map spec_option (spec_times (h1 * 60 + m1) (h2 * 60 + m2) interval)) \<and>
         (if h2 * 60 + m2 < h1 * 60 + m1
          then generateTimeOptions (spec_key h1 m1) (spec_key h2 m2) interval = Some []
          else \<exists>rest. generateTimeOptions (spec_key h1 m1) (spec_key h2 m2) interval
                 = Some (spec_option (h1 * 60 + m1) # rest))"
proof -
  have p1: "parseTime (spec_key h1 m1) = (Some h1, Some m1)"
    using assms by (intro parseTime_spec_key) simp_all
  have p2: "parseTime (spec_key h2 m2) = (Some h2, Some m2)"
    using assms by (intro parseTime_spec_key) simp_all
  have hi: "h2 * 60 + m2 < 1440" using assms by simp
  have "map timeOption (spec_times (h1 * 60 + m1) (h2 * 60 + m2) interval)
        = map spec_option (spec_times (h1 * 60 + m1) (h2 * 60 + m2) interval)"
  proof (rule map_cong[OF refl])
    fix t assume "t \<in> set (spec_times (h1 * 60 + m1) (h2 * 60 + m2) interval)"
    then have "t \<le> h2 * 60 + m2" by (rule spec_times_le)
    then have "t < 1440" using hi by simp
    then show "timeOption t = spec_option t" by (rule timeOption_spec)
  qed
  then have g: "generateTimeOptions (spec_key h1 m1) (spec_key h2 m2) interval
           = Some (map spec_option (spec_times (h1 * 60 + m1) (h2 * 60 + m2) interval))"
    by (simp add: generateTimeOptions_def p1 p2 timeLoop_spec[OF assms(5)])
  show ?thesis
  proof (cases "h2 * 60 + m2 < h1 * 60 + m1")
    case True
    then show ?thesis using g by (simp add: spec_times_empty)
  next
    case False
    then have "h1 * 60 + m1 \<le> h2 * 60 + m2" by simp
    then show ?thesis using g False by (simp add: spec_times_step[OF assms(5)])
  qed
qed

theorem generateTimeOptions_nine_to_ten:
  "(9::nat) < 24 \<and> (0::nat) < 60 \<and> (10::nat) < 24 \<and> (0::nat) < 30 \<and>
   generateTimeOptions ''09:00'' ''10:00'' 30
     = Some [\<lparr>opt_value = ''09:00'', displayText = ''9:00 am''\<rparr>,
             \<lparr>opt_value = ''09:30'', displayText = ''9:30 am''\<rparr>,
             \<lparr>opt_value = ''10:00'', displayText = ''10:00 am''\<rparr>] \<and>
   generateTimeOptions ''10:00'' ''09:00'' 30 = Some []"
proof -
  have k1: "spec_key 9 0 = ''09:00''" and k2: "spec_key 10 0 = ''10:00''"
    by code_simp+
  have l: "map spec_option (spec_times (9 * 60 + 0) (10 * 60 + 0) 30)
           = [\<lparr>opt_value = ''09:00'', displayText = ''9:00 am''\<rparr>,
              \<lparr>opt_value = ''09:30'', displayText = ''9:30 am''\<rparr>,
              \<lparr>opt_value = ''10:00'', displayText = ''10:00 am''\<rparr>]"
    by code_simp
  have a: "generateTimeOptions ''09:00'' ''10:00'' 30
     = Some [\<lparr>opt_value = ''09:00'', displayText = ''9:00 am''\<rparr>,
             \<lparr>opt_value = ''09:30'', displayText = ''9:30 am''\<rparr>,
             \<lparr>opt_value = ''10:00'', displayText = ''10:00 am''\<rparr>]"
    using generateTimeOptions_enumerates[of 9 0 10 0 30, THEN conjunct1]
    unfolding k1 k2 l by simp
  have b: "generateTimeOptions ''10:00'' ''09:00'' 30 = Some []"
    using generateTimeOptions_enumerates[of 10 0 9 0 30, THEN conjunct2]
    unfolding k1 k2 by simp
  show ?thesis using a b by simp
qed

section \<open>The range calendar: picking a date\<close>

text \<open>
  C1. In the pick operation of the range calendar, when the phase is \<open>end\<close> and an
  anchor exists, picking a date that precedes the anchor (a pick being a date the bounds
  accept: any other is ignored) replaces the anchor with the picked date, keeps the
  committed end, resets the phase to \<open>start\<close> and notifies the consumer with the
  resulting pair; nothing else of the state changes. With the anchor 2024-05-10 and the
  phase \<open>end\<close>, picking 2024-05-03 gives the start 2024-05-03, the end \<open>null\<close> and the
  phase \<open>start\<close>.
\<close>

theorem pick_before_anchor_replaces_start:
  assumes "selectionPhase s = PhaseEnd"
    and "selectedStartDate s = Some anchor"
    and "isBefore date anchor"
  shows "handleDateSelect_range b date s =
           (if isDateInRange b date
            then s\<lparr>selectedStartDate := Some date,
                   selectionPhase := PhaseStart,
                   notified := notified s @ [(Some date, selectedEndDate s)]\<rparr>
            else s)"
  using assms by (simp add: handleDateSelect_range_def onChange_def)

theorem pick_before_anchor_2024_05_03:
  "isDateInRange noBounds (ymd 2024 4 3) \<and>
   selectionPhase (range_init noBounds (Given (ymd 2024 4 10)) Null None (ymd 2024 4 1)) = PhaseEnd \<and>
   selectedStartDate (range_init noBounds (Given (ymd 2024 4 10)) Null None (ymd 2024 4 1))
     = Some (ymd 2024 4 10) \<and>
   isBefore (ymd 2024 4 3) (ymd 2024 4 10) \<and>
   selectedStartDate
     (handleDateSelect_range noBounds (ymd 2024 4 3)
        (range_init noBounds (Given (ymd 2024 4 10)) Null None (ymd 2024 4 1)))
     = Some (ymd 2024 4 3) \<and>
   selectedEndDate
     (handleDateSelect_range noBounds (ymd 2024 4 3)
        (range_init noBounds (Given (ymd 2024 4 10)) Null None (ymd 2024 4 1)))
     = None \<and>
   selectionPhase
     (handleDateSelect_range noBounds (ymd 2024 4 3)
        (range_init noBounds (Given (ymd 2024 4 10)) Null None (ymd 2024 4 1)))
     = PhaseStart \<and>
   notified
     (handleDateSelect_range noBounds (ymd 2024 4 3)
        (range_init noBounds (Given (ymd 2024 4 10)) Null None (ymd 2024 4 1)))
     = [(Some (ymd 2024 4 3), None)]"
proof -
  let ?s = "range_init noBounds (Given (ymd 2024 4 10)) Null None (ymd 2024 4 1)"
  have h1: "isDateInRange noBounds (ymd 2024 4 3)" by code_simp
  have h2: "selectionPhase ?s = PhaseEnd" by (simp add: range_init_def propOrNull_def Let_def)
  have h3: "selectedStartDate ?s = Some (ymd 2024 4 10)"
    by (simp add: range_init_def propOrNull_def Let_def)
  have h4: "isBefore (ymd 2024 4 3) (ymd 2024 4 10)" by code_simp
  have e: "selectedEndDate ?s = None" "notified ?s = []"
    by (simp_all add: range_init_def propOrNull_def Let_def)
  show ?thesis
    using h1 h2 h3 h4 e pick_before_anchor_replaces_start[OF h2 h3 h4, of noBounds] by simp
qed

section \<open>The range calendar: the right side follows the left\<close>

lemma syncRight_synced: "rightSynced (syncRight t) = (leftDateSet t \<or> rightSynced t)"
  by (simp add: syncRight_def rightSynced_def)

lemma syncRight_left: "leftCurrentDate (syncRight t) = leftCurrentDate t"
  by (simp add: syncRight_def)

lemma handleNavigation_frame:
  "leftDateSet (handleNavigation b dir s) \<or>
   (leftCurrentDate (handleNavigation b dir s) = leftCurrentDate s \<and>
    (\<not> (activeSpecialView s = Some RightSide \<and> rightView s = Months) \<longrightarrow>
       rightCurrentDate (handleNavigation b dir s) = rightCurrentDate s))"
proof (cases "activeSpecialView s")
  case None
  then show ?thesis by (simp add: handleNavigation_def setLeftCurrentDate_def)
next
  case (Some side)
  then show ?thesis
    by (cases side) (simp_all add: handleNavigation_def setLeftCurrentDate_def Let_def)
qed

lemma toggleView_frame:
  "leftDateSet (toggleView side s) = leftDateSet s"
  "leftCurrentDate (toggleView side s) = leftCurrentDate s"
  "rightCurrentDate (toggleView side s) = rightCurrentDate s"
  by (simp_all add: toggleView_def)

lemma handleDateSelect_range_frame:
  "leftDateSet (handleDateSelect_range b d s) = leftDateSet s"
  "leftCurrentDate (handleDateSelect_range b d s) = leftCurrentDate s"
  "rightCurrentDate (handleDateSelect_range b d s) = rightCurrentDate s"
  by (simp_all add: handleDateSelect_range_def onChange_def split: option.splits)

lemma handleDateHover_frame:
  "leftDateSet (handleDateHover d s) = leftDateSet s"
  "leftCurrentDate (handleDateHover d s) = leftCurrentDate s"
  "rightCurrentDate (handleDateHover d s) = rightCurrentDate s"
  by (simp_all add: handleDateHover_def)

lemma sync_props_frame:
  "leftDateSet (syncStartDate p s) = leftDateSet s"
  "leftCurrentDate (syncStartDate p s) = leftCurrentDate s"
  "rightCurrentDate (syncStartDate p s) = rightCurrentDate s"
  "leftDateSet (syncEndDate p s) = leftDateSet s"
  "leftCurrentDate (syncEndDate p s) = leftCurrentDate s"
  "rightCurrentDate (syncEndDate p s) = rightCurrentDate s"
  by (simp_all add: syncStartDate_def syncEndDate_def split: date_prop.splits)

lemma handleMonthSelect_range_frame:
  "leftDateSet (handleMonthSelect_range b side m s) \<or>
   (leftCurrentDate (handleMonthSelect_range b side m s) = leftCurrentDate s \<and>
    (side \<noteq> RightSide \<longrightarrow>
       rightCurrentDate (handleMonthSelect_range b side m s) = rightCurrentDate s))"
  by (cases side) (simp_all add: handleMonthSelect_range_def setLeftCurrentDate_def Let_def)

lemma handleYearSelect_range_frame:
  "leftDateSet (handleYearSelect_range b side y s) \<or>
   (leftCurrentDate (handleYearSelect_range b side y s) = leftCurrentDate s \<and>
    (side \<noteq> RightSide \<longrightarrow>
       rightCurrentDate (handleYearSelect_range b side y s) = rightCurrentDate s))"
  by (cases side) (simp_all add: handleYearSelect_range_def setLeftCurrentDate_def Let_def)

lemma range_handler_frame:
  "leftDateSet (range_handler b ev s) \<or>
   (leftCurrentDate (range_handler b ev s) = leftCurrentDate s \<and>
    (\<not> movesRightAlone s ev \<longrightarrow>
       rightCurrentDate (range_handler b ev s) = rightCurrentDate s))"
proof (cases ev)
  case (Navigate dir)
  then show ?thesis using handleNavigation_frame[of b dir s] by simp
next
  case (MonthSelect side m)
  then show ?thesis using handleMonthSelect_range_frame[of b side m s] by simp
next
  case (YearSelect side y)
  then show ?thesis using handleYearSelect_range_frame[of b side y s] by simp
qed (simp_all add: toggleView_frame handleDateSelect_range_frame handleDateHover_frame
       sync_props_frame)

lemma range_step_keeps_sync:
  assumes "rightSynced s" "\<not> movesRightAlone s ev"
  shows "rightSynced (range_step b ev s)"
proof -
  have "leftDateSet (range_handler b ev s) \<or> rightSynced (range_handler b ev s)"
    using assms range_handler_frame[of b ev s] by (auto simp: rightSynced_def)
  then show ?thesis by (simp add: range_step_def syncRight_synced)
qed

lemma range_step_resync:
  assumes "leftCurrentDate (range_step b ev s) \<noteq> leftCurrentDate s"
  shows "rightSynced (range_step b ev s)"
proof -
  have "leftDateSet (range_handler b ev s)"
    using assms range_handler_frame[of b ev s] by (auto simp: range_step_def syncRight_left)
  then show ?thesis by (simp add: range_step_def syncRight_synced)
qed

lemma range_run_keeps_sync:
  "rightSynced s \<Longrightarrow> noneMovesRightAlone b evs s \<Longrightarrow> rightSynced (range_run b evs s)"
proof (induction evs arbitrary: s)
  case Nil
  then show ?case by simp
next
  case (Cons ev evs)
  then show ?case by (simp add: range_step_keeps_sync)
qed

lemma range_init_synced: "rightSynced (range_init b sd ed dflt now)"
  by (simp add: range_init_def rightSynced_def Let_def)

lemma monthSelect_right_step:
  assumes "\<not> leftDateSet s"
    and "\<not> legacyYear (fullYear (leftCurrentDate s))"
    and "\<not> legacyYear (fullYear (requestedMonth b s m))"
  shows "range_step b (MonthSelect RightSide m) s =
           (if monthCount (requestedMonth b s m) \<le> monthCount (leftCurrentDate s)
            then s\<lparr>leftCurrentDate :=
                     newDate (fullYear (requestedMonth b s m))
                       (int (monthIndex (requestedMonth b s m)) - 1) 1,
                   rightCurrentDate :=
                     addMonths (newDate (fullYear (requestedMonth b s m))
                       (int (monthIndex (requestedMonth b s m)) - 1) 1) 1,
                   rightView := Days, activeSpecialView := None\<rparr>
            else s\<lparr>rightCurrentDate := requestedMonth b s m,
                   rightView := Days, activeSpecialView := None\<rparr>)"
proof -
  have c: "isBefore
             (newDate (fullYear (requestedMonth b s m)) (int (monthIndex (requestedMonth b s m))) 1)
             (newDate (fullYear (leftCurrentDate s)) (int (monthIndex (leftCurrentDate s)) + 1) 1)
           \<longleftrightarrow> monthCount (requestedMonth b s m) \<le> monthCount (leftCurrentDate s)"
    unfolding isBefore_first_of_month[OF assms(3) assms(2)] monthCount_def by linarith
  show ?thesis
  proof (cases "monthCount (requestedMonth b s m) \<le> monthCount (leftCurrentDate s)")
    case True
    then show ?thesis
      using c assms(1)
      by (simp add: range_step_def handleMonthSelect_range_def requestedMonth_def[symmetric]
          Let_def syncRight_def setLeftCurrentDate_def)
  next
    case False
    then show ?thesis
      using c assms(1)
      by (simp add: range_step_def handleMonthSelect_range_def requestedMonth_def[symmetric]
          Let_def syncRight_def setLeftCurrentDate_def)
  qed
qed

lemma yearSelect_right_step:
  assumes "\<not> leftDateSet s"
  shows "range_step b (YearSelect RightSide y) s =
           (if yearAccepted b s y
            then s\<lparr>rightCurrentDate :=
                     (if isBefore (requestedYear b s y) (addMonths (leftCurrentDate s) 1)
                      then addMonths (leftCurrentDate s) 1 else requestedYear b s y),
                   rightView := Days, activeSpecialView := None\<rparr>
            else s)"
  using assms
  by (auto simp: range_step_def handleYearSelect_range_def requestedYear_def[symmetric]
      yearAccepted_def Let_def syncRight_def split: option.splits)

lemma yearSelect_right_after_left:
  assumes "valid_bounds b" "valid_date (leftCurrentDate s)" "valid_date (rightCurrentDate s)"
  shows "monthCount (leftCurrentDate s)
           < monthCount (if isBefore (requestedYear b s y) (addMonths (leftCurrentDate s) 1)
                         then addMonths (leftCurrentDate s) 1 else requestedYear b s y)"
proof (cases "isBefore (requestedYear b s y) (addMonths (leftCurrentDate s) 1)")
  case True
  then show ?thesis by (simp add: monthCount_addMonths)
next
  case False
  have v1: "valid_date (addMonths (leftCurrentDate s) 1)"
    using assms(2) by (rule addMonths_valid)
  have v2: "valid_date (requestedYear b s y)"
    unfolding requestedYear_def
    using assms(1) setFullYear_valid[OF assms(3)] by (rule clampToBounds_valid)
  have "getTime (addMonths (leftCurrentDate s) 1) \<le> getTime (requestedYear b s y)"
    using False by (simp add: isBefore_def)
  then have "monthCount (addMonths (leftCurrentDate s) 1) \<le> monthCount (requestedYear b s y)"
    using v1 v2 by (intro monthCount_le_of_getTime_le)
  then show ?thesis using False by (simp add: monthCount_addMonths)
qed

lemma rightAfterLeft_syncRight:
  assumes "leftDateSet t \<or> rightAfterLeft t"
  shows "rightAfterLeft (syncRight t)"
  using assms by (auto simp: syncRight_def rightAfterLeft_def monthCount_addMonths)

lemma range_step_keeps_right_after_left:
  assumes "valid_bounds b" "valid_date (leftCurrentDate s)" "valid_date (rightCurrentDate s)"
    and "\<not> leftDateSet s" "modernYears b s ev" "rightAfterLeft s" "\<not> rightYearArrows s ev"
  shows "rightAfterLeft (range_step b ev s)"
proof (cases "movesRightAlone s ev")
  case False
  have "leftDateSet (range_handler b ev s) \<or> rightAfterLeft (range_handler b ev s)"
    using False assms(6) range_handler_frame[of b ev s] by (auto simp: rightAfterLeft_def)
  then show ?thesis unfolding range_step_def by (rule rightAfterLeft_syncRight)
next
  case True
  show ?thesis
  proof (cases ev)
    case (MonthSelect side m)
    then have side: "side = RightSide" using True by simp
    have y: "\<not> legacyYear (fullYear (leftCurrentDate s))"
      "\<not> legacyYear (fullYear (requestedMonth b s m))"
      using assms(5) MonthSelect side by simp_all
    have "monthCount (newDate (fullYear (requestedMonth b s m))
            (int (monthIndex (requestedMonth b s m)) - 1) 1)
          = monthCount (requestedMonth b s m) - 1"
      by (simp add: monthCount_newDate[OF y(2)]) (simp add: monthCount_def)
    then show ?thesis
      unfolding MonthSelect side monthSelect_right_step[OF assms(4) y] rightAfterLeft_def
      by (simp add: monthCount_addMonths)
  next
    case (YearSelect side y)
    then have side: "side = RightSide" using True by simp
    show ?thesis
      unfolding YearSelect side yearSelect_right_step[OF assms(4)] rightAfterLeft_def
      using yearSelect_right_after_left[OF assms(1-3), of y] assms(6)
      by (simp add: rightAfterLeft_def)
  next
    case (Navigate dir)
    then show ?thesis using True assms(7) by simp
  qed (use True in simp_all)
qed

text \<open>
  C2, as the code has it. At mount the right calendar shows the month after the left one,
  \<open>rightCurrentDate = addMonths leftCurrentDate 1\<close>, and it still does after every run
  of events none of which moves the right side alone (a month or year selection on the
  right side, or the year arrows while the right side shows its months), whatever the
  views are. Every event that changes \<open>leftCurrentDate\<close> recomputes \<open>rightCurrentDate\<close>
  to the month after it, from any state. And from a state of real calendar dates in which
  the right calendar's month is strictly after the left calendar's, it still is after
  every event but the year arrows of the right month grid: a month or year selection on
  the right side may move the right calendar further away, never at or behind the left.
\<close>

theorem right_follows_left:
  "(noneMovesRightAlone b evs (range_init b sd ed dflt now) \<longrightarrow>
      rightSynced (range_run b evs (range_init b sd ed dflt now))) \<and>
   (leftCurrentDate (range_step b ev s) \<noteq> leftCurrentDate s \<longrightarrow>
      rightSynced (range_step b ev s)) \<and>
   (valid_bounds b \<and> valid_date (leftCurrentDate s) \<and> valid_date (rightCurrentDate s) \<and>
    \<not> leftDateSet s \<and> modernYears b s ev \<and> rightAfterLeft s \<and> \<not> rightYearArrows s ev \<longrightarrow>
      rightAfterLeft (range_step b ev s))"
  using range_run_keeps_sync[OF range_init_synced] range_step_resync
    range_step_keeps_right_after_left
  by blast

theorem right_follows_left_browsing:
  "noneMovesRightAlone noBounds browsingRun mountedMay2024 \<and>
   rightSynced (range_run noBounds browsingRun mountedMay2024) \<and>
   leftCurrentDate (range_step noBounds (Navigate Next) mountedMay2024)
     \<noteq> leftCurrentDate mountedMay2024 \<and>
   rightSynced (range_step noBounds (Navigate Next) mountedMay2024) \<and>
   valid_bounds noBounds \<and>
   valid_date (leftCurrentDate mountedMay2024) \<and>
   valid_date (rightCurrentDate mountedMay2024) \<and>
   \<not> leftDateSet mountedMay2024 \<and>
   modernYears noBounds mountedMay2024 (MonthSelect RightSide 9) \<and>
   rightAfterLeft mountedMay2024 \<and>
   \<not> rightYearArrows mountedMay2024 (MonthSelect RightSide 9) \<and>
   rightAfterLeft (range_step noBounds (MonthSelect RightSide 9) mountedMay2024)"
proof -
  have h1: "noneMovesRightAlone noBounds browsingRun
              (range_init noBounds Undefined Undefined (Some (ymd 2024 4 15)) (ymd 2024 4 15))"
    by code_simp
  have h2: "leftCurrentDate (range_step noBounds (Navigate Next) mountedMay2024)
              \<noteq> leftCurrentDate mountedMay2024"
    by code_simp
  have g1: "valid_bounds noBounds" by code_simp
  have g2: "valid_date (leftCurrentDate mountedMay2024)" by code_simp
  have g3: "valid_date (rightCurrentDate mountedMay2024)" by code_simp
  have g4: "\<not> leftDateSet mountedMay2024" by code_simp
  have g5: "modernYears noBounds mountedMay2024 (MonthSelect RightSide 9)" by code_simp
  have g6: "rightAfterLeft mountedMay2024" by code_simp
  have g7: "\<not> rightYearArrows mountedMay2024 (MonthSelect RightSide 9)" by simp
  have a: "rightSynced (range_run noBounds browsingRun mountedMay2024) \<and>
           rightSynced (range_step noBounds (Navigate Next) mountedMay2024)"
    using h1 h2
      right_follows_left[of noBounds browsingRun Undefined Undefined "Some (ymd 2024 4 15)"
        "ymd 2024 4 15" "Navigate Next" mountedMay2024]
    by (simp add: mountedMay2024_def)
  have c: "rightAfterLeft (range_step noBounds (MonthSelect RightSide 9) mountedMay2024)"
    using g1 g2 g3 g4 g5 g6 g7
      right_follows_left[of noBounds "[]" Undefined Undefined None "ymd 2024 4 15"
        "MonthSelect RightSide 9" mountedMay2024]
    by blast
  show ?thesis using h1 h2 g1 g2 g3 g4 g5 g6 g7 a c by (simp add: mountedMay2024_def)
qed

text \<open>
  The equality is not kept by a month selection on the right side: from the calendar
  mounted on 2024-05-15, opening the month grid of the right side and choosing October
  ends with both sides in the day view, the left at May and the right at October 2024.
\<close>

theorem right_not_one_month_after_left:
  "leftView octoberPicked = Days \<and> rightView octoberPicked = Days \<and>
   activeSpecialView octoberPicked = None \<and>
   leftCurrentDate octoberPicked = ymd 2024 4 15 \<and>
   rightCurrentDate octoberPicked = ymd 2024 9 15 \<and>
   addMonths (leftCurrentDate octoberPicked) 1 = ymd 2024 5 15 \<and>
   \<not> rightSynced octoberPicked"
  by code_simp

text \<open>
  The year arrows of the right month grid are the event the statement leaves out: one
  step back in the month grid of the right side, left through the year grid without a
  selection, ends with both sides in the day view and the right calendar at June 2023,
  behind the left one at May 2024.
\<close>

lemma right_year_arrows_leave_right_behind:
  "leftView (range_run noBounds yearArrowsRun mountedMay2024) = Days \<and>
   rightView (range_run noBounds yearArrowsRun mountedMay2024) = Days \<and>
   leftCurrentDate (range_run noBounds yearArrowsRun mountedMay2024) = ymd 2024 4 15 \<and>
   rightCurrentDate (range_run noBounds yearArrowsRun mountedMay2024) = ymd 2023 5 15 \<and>
   \<not> rightAfterLeft (range_run noBounds yearArrowsRun mountedMay2024)"
  by code_simp

section \<open>The range calendar: month and year selection on the right side\<close>

text \<open>
  C5, as the code has it. In a state whose dates and bounds are real calendar dates,
  with years outside 0 to 99 (which \<open>new Date(y, m, 1)\<close> reads as 1900 plus the year):
  a month selection on the right side that asks for a month at or before the left
  calendar's month pushes the left calendar to the first day of the month before the
  requested one, and the right calendar shows the requested month; otherwise the left
  calendar stays and the right one takes the requested date. A year selection on the
  right side never moves the left calendar: it is ignored when the year is not selectable
  or precedes the year of the committed start, and otherwise the right calendar takes the
  requested date, or the month after the left calendar when the requested date is before
  it. After a month selection, and after an accepted year selection, the right calendar's
  month is strictly after the left calendar's month.
\<close>

theorem right_selection_stays_after_left:
  assumes "valid_bounds b"
    and "valid_date (leftCurrentDate s)"
    and "valid_date (rightCurrentDate s)"
    and "\<not> leftDateSet s"
    and "\<not> legacyYear (fullYear (leftCurrentDate s))"
    and "\<not> legacyYear (fullYear (requestedMonth b s m))"
  shows
    "(if monthCount (requestedMonth b s m) \<le> monthCount (leftCurrentDate s)
      then leftCurrentDate (range_step b (MonthSelect RightSide m) s)
             = newDate (fullYear (requestedMonth b s m))
                 (int (monthIndex (requestedMonth b s m)) - 1) 1 \<and>
           monthCount (leftCurrentDate (range_step b (MonthSelect RightSide m) s))
             = monthCount (requestedMonth b s m) - 1 \<and>
           monthCount (rightCurrentDate (range_step b (MonthSelect RightSide m) s))
             = monthCount (requestedMonth b s m)
      else leftCurrentDate (range_step b (MonthSelect RightSide m) s) = leftCurrentDate s \<and>
           rightCurrentDate (range_step b (MonthSelect RightSide m) s)
             = requestedMonth b s m) \<and>
     monthCount (leftCurrentDate (range_step b (MonthSelect RightSide m) s))
       < monthCount (rightCurrentDate (range_step b (MonthSelect RightSide m) s)) \<and>
     (if yearAccepted b s y
      then leftCurrentDate (range_step b (YearSelect RightSide y) s) = leftCurrentDate s \<and>
           rightCurrentDate (range_step b (YearSelect RightSide y) s)
             = (if isBefore (requestedYear b s y) (addMonths (leftCurrentDate s) 1)
                then addMonths (leftCurrentDate s) 1 else requestedYear b s y) \<and>
           monthCount (leftCurrentDate (range_step b (YearSelect RightSide y) s))
             < monthCount (rightCurrentDate (range_step b (YearSelect RightSide y) s))
      else range_step b (YearSelect RightSide y) s = s)"
proof -
  have month: "monthCount (newDate (fullYear (requestedMonth b s m))
                 (int (monthIndex (requestedMonth b s m)) - 1) 1)
               = monthCount (requestedMonth b s m) - 1"
    by (simp add: monthCount_newDate[OF assms(6)]) (simp add: monthCount_def)
  have year: "monthCount (leftCurrentDate s)
           < monthCount (if isBefore (requestedYear b s y) (addMonths (leftCurrentDate s) 1)
                         then addMonths (leftCurrentDate s) 1 else requestedYear b s y)"
    using assms(1-3) by (rule yearSelect_right_after_left)
  show ?thesis
    unfolding monthSelect_right_step[OF assms(4) assms(5) assms(6)]
      yearSelect_right_step[OF assms(4)]
    using month year by (simp add: monthCount_addMonths)
qed

theorem right_selection_march_and_2026:
  "valid_bounds noBounds \<and>
   valid_date (leftCurrentDate mountedMay2024) \<and>
   valid_date (rightCurrentDate mountedMay2024) \<and>
   \<not> leftDateSet mountedMay2024 \<and>
   \<not> legacyYear (fullYear (leftCurrentDate mountedMay2024)) \<and>
   \<not> legacyYear (fullYear (requestedMonth noBounds mountedMay2024 2)) \<and>
   monthCount (requestedMonth noBounds mountedMay2024 2)
     \<le> monthCount (leftCurrentDate mountedMay2024) \<and>
   leftCurrentDate (range_step noBounds (MonthSelect RightSide 2) mountedMay2024)
     = ymd 2024 1 1 \<and>
   rightCurrentDate (range_step noBounds (MonthSelect RightSide 2) mountedMay2024)
     = ymd 2024 2 1 \<and>
   monthCount (leftCurrentDate (range_step noBounds (MonthSelect RightSide 2) mountedMay2024))
     < monthCount (rightCurrentDate (range_step noBounds (MonthSelect RightSide 2) mountedMay2024)) \<and>
   yearAccepted noBounds mountedMay2024 2026 \<and>
   leftCurrentDate (range_step noBounds (YearSelect RightSide 2026) mountedMay2024)
     = ymd 2024 4 15 \<and>
   rightCurrentDate (range_step noBounds (YearSelect RightSide 2026) mountedMay2024)
     = ymd 2026 5 15 \<and>
   monthCount (leftCurrentDate (range_step noBounds (YearSelect RightSide 2026) mountedMay2024))
     < monthCount (rightCurrentDate (range_step noBounds (YearSelect RightSide 2026) mountedMay2024))"
proof -
  have h1: "valid_bounds noBounds" by code_simp
  have h2: "valid_date (leftCurrentDate mountedMay2024)" by code_simp
  have h3: "valid_date (rightCurrentDate mountedMay2024)" by code_simp
  have h4: "\<not> leftDateSet mountedMay2024" by code_simp
  have h5: "\<not> legacyYear (fullYear (leftCurrentDate mountedMay2024))" by code_simp
  have h6: "\<not> legacyYear (fullYear (requestedMonth noBounds mountedMay2024 2))" by code_simp
  have e1: "monthCount (requestedMonth noBounds mountedMay2024 2)
              \<le> monthCount (leftCurrentDate mountedMay2024)" by code_simp
  have e2: "leftCurrentDate (range_step noBounds (MonthSelect RightSide 2) mountedMay2024)
              = ymd 2024 1 1" by code_simp
  have e3: "rightCurrentDate (range_step noBounds (MonthSelect RightSide 2) mountedMay2024)
              = ymd 2024 2 1" by code_simp
  have e4: "yearAccepted noBounds mountedMay2024 2026" by code_simp
  have e5: "leftCurrentDate (range_step noBounds (YearSelect RightSide 2026) mountedMay2024)
              = ymd 2024 4 15" by code_simp
  have e6: "rightCurrentDate (range_step noBounds (YearSelect RightSide 2026) mountedMay2024)
              = ymd 2026 5 15" by code_simp
  note t = right_selection_stays_after_left[OF h1 h2 h3 h4 h5 h6, of 2026]
  have lt1: "monthCount (leftCurrentDate (range_step noBounds (MonthSelect RightSide 2) mountedMay2024))
     < monthCount (rightCurrentDate (range_step noBounds (MonthSelect RightSide 2) mountedMay2024))"
    by (rule t[THEN conjunct2, THEN conjunct1])
  have lt2: "monthCount (leftCurrentDate (range_step noBounds (YearSelect RightSide 2026) mountedMay2024))
     < monthCount (rightCurrentDate (range_step noBounds (YearSelect RightSide 2026) mountedMay2024))"
    by (rule t[THEN conjunct2, THEN conjunct2, unfolded if_P[OF e4], THEN conjunct2, THEN conjunct2])
  show ?thesis
    by (intro conjI h1 h2 h3 h4 h5 h6 e1 e2 e3 lt1 e4 e5 e6 lt2)
qed

text \<open>
  A year selection on the right side does not push the left calendar back: with May and
  June 2024 shown, choosing 2023 on the right asks for June 2023; the left calendar stays
  at May 2024 (not May 2023) and the right one stays at June 2024.
\<close>

theorem right_year_selection_leaves_left:
  "yearAccepted noBounds mountedMay2024 2023 \<and>
   requestedYear noBounds mountedMay2024 2023 = ymd 2023 5 15 \<and>
   monthCount (requestedYear noBounds mountedMay2024 2023)
     \<le> monthCount (leftCurrentDate mountedMay2024) \<and>
   leftCurrentDate (range_step noBounds (YearSelect RightSide 2023) mountedMay2024)
     = ymd 2024 4 15 \<and>
   rightCurrentDate (range_step noBounds (YearSelect RightSide 2023) mountedMay2024)
     = ymd 2024 5 15 \<and>
   subMonths (requestedYear noBounds mountedMay2024 2023) 1 = ymd 2023 4 15 \<and>
   monthCount (leftCurrentDate (range_step noBounds (YearSelect RightSide 2023) mountedMay2024))
     \<noteq> monthCount (requestedYear noBounds mountedMay2024 2023) - 1"
  by code_simp

section \<open>The range input shell and the presets\<close>

text \<open>
  C7, as the code has it. Apply notifies the consumer with the buffered pair and closes.
  Cancel closes without notifying; it reverts the buffer to the pair of the props only
  when a start and no end is buffered, and otherwise leaves the buffer as it is, to be
  seeded from the props when the picker is opened again. Clear empties the buffer and
  notifies the consumer with \<open>(null, null)\<close> at once, without closing; a consumer that
  stores what it is notified of then holds \<open>null\<close> for both dates.
\<close>

theorem shell_apply_cancel_clear:
  "changes (handleApply s) = changes s @ [(localStartDate s, localEndDate s)] \<and>
   isOpen (handleApply s) = False \<and>
   changes (handleCancel s) = changes s \<and>
   isOpen (handleCancel s) = False \<and>
   (localStartDate (handleCancel s), localEndDate (handleCancel s))
     = (if localStartDate s \<noteq> None \<and> localEndDate s = None
        then (propOrNull (startDate s), propOrNull (endDate s))
        else (localStartDate s, localEndDate s)) \<and>
   (localStartDate (togglePicker (handleCancel s)), localEndDate (togglePicker (handleCancel s)))
     = (propOrNull (startDate s), propOrNull (endDate s)) \<and>
   localStartDate (handleClear s) = None \<and>
   localEndDate (handleClear s) = None \<and>
   changes (handleClear s) = changes s @ [(None, None)] \<and>
   isOpen (handleClear s) = isOpen s \<and>
   startDate (consumerStores (handleClear s)) = Null \<and>
   endDate (consumerStores (handleClear s)) = Null"
  by (simp add: handleApply_def handleCancel_def handleClear_def togglePicker_def
      consumerStores_def Let_def)

theorem shell_start_only_cancel:
  "changes (handleApply pendingShell) = [(Some (ymd 2024 4 3), Some (ymd 2024 4 10))] \<and>
   isOpen (handleApply pendingShell) = False \<and>
   changes (handleCancel startOnlyShell) = [] \<and>
   isOpen (handleCancel startOnlyShell) = False \<and>
   (localStartDate (handleCancel startOnlyShell), localEndDate (handleCancel startOnlyShell))
     = (Some (ymd 2024 3 1), Some (ymd 2024 3 5)) \<and>
   changes (handleClear pendingShell) = [(None, None)] \<and>
   localStartDate (handleClear pendingShell) = None \<and>
   localEndDate (handleClear pendingShell) = None"
proof -
  have p: "changes pendingShell = []" "localStartDate pendingShell = Some (ymd 2024 4 3)"
    "localEndDate pendingShell = Some (ymd 2024 4 10)"
    by (simp_all add: pendingShell_def emptyShell_def)
  have q: "changes startOnlyShell = []" "localStartDate startOnlyShell = Some (ymd 2024 4 3)"
    "localEndDate startOnlyShell = None"
    "propOrNull (startDate startOnlyShell) = Some (ymd 2024 3 1)"
    "propOrNull (endDate startOnlyShell) = Some (ymd 2024 3 5)"
    by (simp_all add: startOnlyShell_def emptyShell_def propOrNull_def)
  show ?thesis
    using shell_apply_cancel_clear[of pendingShell] shell_apply_cancel_clear[of startOnlyShell]
    by (simp add: p q)
qed

text \<open>
  Cancel with a complete pending pair keeps the pair in the buffer: with nothing
  committed and 2024-05-03 to 2024-05-10 pending, the buffer after Cancel still holds
  that pair, not \<open>(null, null)\<close>.
\<close>

theorem cancel_keeps_full_buffer:
  "propOrNull (startDate pendingShell) = None \<and>
   propOrNull (endDate pendingShell) = None \<and>
   localStartDate (handleCancel pendingShell) = Some (ymd 2024 4 3) \<and>
   localEndDate (handleCancel pendingShell) = Some (ymd 2024 4 10) \<and>
   isOpen (handleCancel pendingShell) = False \<and>
   changes (handleCancel pendingShell) = []"
  by code_simp

text \<open>
  C9. At every moment \<open>now\<close>, the preset This Week gives as start the Sunday of the
  current week (the day \<open>getDay now\<close> days before today, so today itself on a Sunday) at
  00:00:00.000 and as end the Saturday six days later at 23:59:59.999. Clicking any
  preset stores its range in the buffer of the shell and notifies nobody: the record of
  notifications, the props and the open flag are unchanged.
\<close>

theorem thisWeek_sunday_to_saturday:
  assumes "valid_date now"
  shows "getRange ThisWeek now = (Some (startOfWeek now), Some (endOfWeek now)) \<and>
         valid_date (startOfWeek now) \<and> valid_date (endOfWeek now) \<and>
         getDay (startOfWeek now) = 0 \<and>
         dayNumber (startOfWeek now) = dayNumber now - int (getDay now) \<and>
         dayNumber (startOfWeek now) \<le> dayNumber now \<and>
         dayNumber now < dayNumber (startOfWeek now) + 7 \<and>
         timeOfDay (startOfWeek now) = 0 \<and>
         getDay (endOfWeek now) = 6 \<and>
         dayNumber (endOfWeek now) = dayNumber (startOfWeek now) + 6 \<and>
         hours (endOfWeek now) = 23 \<and> minutes (endOfWeek now) = 59 \<and>
         seconds (endOfWeek now) = 59 \<and> millis (endOfWeek now) = 999 \<and>
         changes (handlePresetClick preset now sh) = changes sh \<and>
         (localStartDate (handlePresetClick preset now sh),
          localEndDate (handlePresetClick preset now sh)) = getRange preset now \<and>
         isOpen (handlePresetClick preset now sh) = isOpen sh \<and>
         startDate (handlePresetClick preset now sh) = startDate sh \<and>
         endDate (handlePresetClick preset now sh) = endDate sh"
proof -
  have v1: "valid_date (startOfWeek now)"
    unfolding startOfWeek_def using assms by (intro startOfDay_valid subDays_valid)
  have v2: "valid_date (endOfWeek now)"
    unfolding endOfWeek_def using assms by (intro endOfDay_valid addDays_valid)
  have g: "int (getDay now) < 7" using getDay_less_7[of now] by simp
  have e: "dayNumber (endOfWeek now) = dayNumber (startOfWeek now) + 6"
    using getDay_less_7[of now]
    by (simp add: dayNumber_endOfWeek[OF assms] dayNumber_startOfWeek[OF assms])
  have t0: "timeOfDay (startOfWeek now) = 0"
    by (simp add: timeOfDay_def startOfWeek_def startOfDay_def)
  have t1: "hours (endOfWeek now) = 23" "minutes (endOfWeek now) = 59"
    "seconds (endOfWeek now) = 59" "millis (endOfWeek now) = 999"
    by (simp_all add: endOfWeek_def endOfDay_def)
  have p: "changes (handlePresetClick preset now sh) = changes sh"
    "(localStartDate (handlePresetClick preset now sh),
      localEndDate (handlePresetClick preset now sh)) = getRange preset now"
    "isOpen (handlePresetClick preset now sh) = isOpen sh"
    "startDate (handlePresetClick preset now sh) = startDate sh"
    "endDate (handlePresetClick preset now sh) = endDate sh"
    by (simp_all add: handlePresetClick_def handleDateChange_def)
  show ?thesis
    using v1 v2 g e t0 t1 p getDay_startOfWeek[OF assms] getDay_endOfWeek[OF assms]
      dayNumber_startOfWeek[OF assms]
    by simp
qed

theorem thisWeek_on_wednesday:
  "valid_date (ymdhms 2024 4 1 13 20 0 0) \<and>
   getDay (ymdhms 2024 4 1 13 20 0 0) = 3 \<and>
   getRange ThisWeek (ymdhms 2024 4 1 13 20 0 0)
     = (Some (ymd 2024 3 28), Some (ymdhms 2024 4 4 23 59 59 999)) \<and>
   getDay (ymd 2024 3 28) = 0 \<and>
   getDay (ymdhms 2024 4 4 23 59 59 999) = 6 \<and>
   changes (handlePresetClick ThisWeek (ymdhms 2024 4 1 13 20 0 0) emptyShell) = [] \<and>
   localStartDate (handlePresetClick ThisWeek (ymdhms 2024 4 1 13 20 0 0) emptyShell)
     = Some (ymd 2024 3 28) \<and>
   localEndDate (handlePresetClick ThisWeek (ymdhms 2024 4 1 13 20 0 0) emptyShell)
     = Some (ymdhms 2024 4 4 23 59 59 999)"
proof -
  let ?now = "ymdhms 2024 4 1 13 20 0 0"
  have h: "valid_date ?now" by code_simp
  have g: "getDay ?now = 3" by code_simp
  have s: "startOfWeek ?now = ymd 2024 3 28" by code_simp
  have e: "endOfWeek ?now = ymdhms 2024 4 4 23 59 59 999" by code_simp
  have c: "changes emptyShell = []" by (simp add: emptyShell_def)
  note t = thisWeek_sunday_to_saturday[OF h, of ThisWeek emptyShell, unfolded s e]
  show ?thesis using h g t c by simp
qed

end
